theory Spec2Isabelle
  imports Complex_Main
begin

section \<open>Scores, errors and the structural-constraint interface\<close>

text \<open>
  The decoder of \<^verbatim>\<open>beam_search/search.py\<close> works on IEEE floating-point
  log-probabilities. The model keeps the three special values the code distinguishes
  (not-a-number, negative and positive infinity) and takes every finite value as a real
  number: rounding and overflow of finite values are not modelled.
\<close>

datatype float = NaN | NegInf | Fin real | PosInf

datatype pyerr =
  AssertionError | IndexError | RuntimeError | ZeroDivisionError | TypeError | ComplexResult

text \<open>
  Modelled from the spec: the enumeration \<^verbatim>\<open>ChangeStatus\<close> is declared in
  \<^verbatim>\<open>tree_builder.py\<close>, which is not among the sources. The decoder compares the
  status of an advance with \<^verbatim>\<open>END_LINE\<close> only; the spec names the other outcome
  "legal but not complete".
\<close>

datatype ChangeStatus = END_LINE | NOT_COMPLETE

text \<open>
  The tree builder and the line breaker are collaborators whose code is not among the
  sources; the decoder is parameterised by the three operations it calls. Values are
  immutable here, so \<^verbatim>\<open>tree_builder.copy()\<close> followed by
  \<^verbatim>\<open>add_id\<close> on the copy is a function from the old builder to the advanced one.
\<close>

record 'tb collaborators =
  get_next_possible_ids :: "'tb \<Rightarrow> nat list"
  add_id :: "'tb \<Rightarrow> nat \<Rightarrow> 'tb \<times> ChangeStatus"
  get_num_newline_nodes :: nat

definition isnan :: "float \<Rightarrow> bool" where
  "isnan x = (x = NaN)"

text \<open>Floating-point addition on the special values; finite values add as reals.\<close>

fun fadd :: "float \<Rightarrow> float \<Rightarrow> float" where
  "fadd NaN _ = NaN"
| "fadd _ NaN = NaN"
| "fadd PosInf NegInf = NaN"
| "fadd NegInf PosInf = NaN"
| "fadd PosInf _ = PosInf"
| "fadd _ PosInf = PosInf"
| "fadd NegInf _ = NegInf"
| "fadd _ NegInf = NegInf"
| "fadd (Fin a) (Fin b) = Fin (a + b)"

text \<open>Division of a float by a finite non-zero divisor, and \<^verbatim>\<open>math.exp\<close>.\<close>

fun fdiv :: "float \<Rightarrow> real \<Rightarrow> float" where
  "fdiv NaN d = NaN"
| "fdiv (Fin r) d = Fin (r / d)"
| "fdiv NegInf d = (if 0 < d then NegInf else PosInf)"
| "fdiv PosInf d = (if 0 < d then PosInf else NegInf)"

fun fexp :: "float \<Rightarrow> float" where
  "fexp NaN = NaN"
| "fexp (Fin r) = Fin (exp r)"
| "fexp NegInf = Fin 0"
| "fexp PosInf = PosInf"

section \<open>Hypotheses and length normalisation\<close>

record 'tb Hypothesis =
  ids :: "nat list"
  tree_builder :: "'tb"
  score :: float
  is_terminated :: bool

text \<open>
  Python's \<^verbatim>\<open>x ** y\<close> on floats: anything to the power zero is one, zero to a
  negative power raises, a negative base with a fractional exponent leaves the floats
  (the result is a complex number), a negative base with an integral exponent is the
  integer power.
\<close>

definition float_pow :: "real \<Rightarrow> real \<Rightarrow> pyerr + real" where
  "float_pow x y =
     (if y = 0 then Inr 1
      else if x = 0 then (if y < 0 then Inl ZeroDivisionError else Inr 0)
      else if x < 0 then
        (if of_int \<lfloor>y\<rfloor> = y then Inr (x powi \<lfloor>y\<rfloor>) else Inl ComplexResult)
      else Inr (x powr y))"

text \<open>
  \<^verbatim>\<open>norm_factor = ((len_norm_base + length) / (len_norm_base + 1)) ** len_norm_pow\<close>,
  the expression both \<^verbatim>\<open>Hypothesis.get_normalized_score\<close> and
  \<^verbatim>\<open>PredictionPostprocessor._normalize_score\<close> start with.
\<close>

definition norm_factor :: "real \<Rightarrow> real \<Rightarrow> real \<Rightarrow> pyerr + real" where
  "norm_factor len_norm_base len_norm_pow len =
     (if len_norm_base + 1 = 0 then Inl ZeroDivisionError
      else float_pow ((len_norm_base + len) / (len_norm_base + 1)) len_norm_pow)"

text \<open>\<^verbatim>\<open>score / norm_factor\<close>: a float division, which raises on a zero divisor.\<close>

definition div_by_norm :: "float \<Rightarrow> pyerr + real \<Rightarrow> pyerr + float" where
  "div_by_norm s nf =
     (case nf of
        Inl e \<Rightarrow> Inl e
      | Inr d \<Rightarrow> if d = 0 then Inl ZeroDivisionError else Inr (fdiv s d))"

text \<open>
  \<^verbatim>\<open>Hypothesis.get_normalized_score\<close> (defaults 5.0 and 0.7 in the source):
  \<^verbatim>\<open>math.exp(self.score / norm_factor)\<close>.
\<close>

definition get_normalized_score :: "'tb Hypothesis \<Rightarrow> real \<Rightarrow> real \<Rightarrow> pyerr + float" where
  "get_normalized_score h len_norm_base len_norm_pow =
     (case div_by_norm (score h) (norm_factor len_norm_base len_norm_pow (real (length (ids h)))) of
        Inl e \<Rightarrow> Inl e
      | Inr q \<Rightarrow> Inr (fexp q))"

text \<open>
  \<^verbatim>\<open>PredictionPostprocessor._normalize_score(length, score)\<close> of
  \<^verbatim>\<open>evaluate_predictions.py\<close>: it returns \<^verbatim>\<open>score / norm_factor\<close>, with
  no exponential. The length is an integer read from the predictions file.
\<close>

definition normalize_score :: "real \<Rightarrow> real \<Rightarrow> int \<Rightarrow> float \<Rightarrow> pyerr + float" where
  "normalize_score len_norm_base len_norm_pow len s =
     div_by_norm s (norm_factor len_norm_base len_norm_pow (real_of_int len))"

text \<open>The formula of the specification, on finite scores and a positive ratio.\<close>

definition spec_normalized_score :: "real \<Rightarrow> real \<Rightarrow> real \<Rightarrow> real \<Rightarrow> real" where
  "spec_normalized_score raw_score len base pw =
     exp (raw_score / (((base + len) / (base + 1)) powr pw))"

section \<open>The decoder state\<close>

text \<open>
  The attributes of \<^verbatim>\<open>BeamSearch\<close>. A tensor attribute that is
  \<^verbatim>\<open>None\<close> until the deferred initialisation is an option; a matrix is the
  list of its rows. The device handle is left out. \<^verbatim>\<open>_length\<close> is
  \<open>length_bs\<close>; \<^verbatim>\<open>_samples\<close> does not exist before the first commit.
\<close>

record 'tb BeamSearch =
  vocab_size :: nat
  beam_size :: nat
  length_bs :: nat
  terminated_hypotheses :: "'tb Hypothesis list"
  scores :: "float list option"
  hypotheses :: "nat list list option"
  sort_mask :: "nat list option"
  row_mask :: "bool list option"
  tree_builders :: "'tb list"
  is_initialized :: bool
  samples :: "nat list option"

text \<open>\<^verbatim>\<open>BeamSearch.__init__\<close>.\<close>

definition new_BeamSearch :: "nat \<Rightarrow> nat \<Rightarrow> 'tb \<Rightarrow> 'tb BeamSearch" where
  "new_BeamSearch vocab beam tb =
     \<lparr>vocab_size = vocab, beam_size = beam, length_bs = 1, terminated_hypotheses = [],
      scores = None, hypotheses = None, sort_mask = None, row_mask = None,
      tree_builders = [tb], is_initialized = False, samples = None\<rparr>"

text \<open>The property \<^verbatim>\<open>batch_size\<close>.\<close>

definition batch_size :: "'tb BeamSearch \<Rightarrow> nat" where
  "batch_size s = (case scores s of None \<Rightarrow> 1 | Some sc \<Rightarrow> length sc)"

text \<open>
  The property \<^verbatim>\<open>current_hypotheses\<close>: Python's \<^verbatim>\<open>zip\<close> stops at the
  shortest of the three sequences, as \<open>zip\<close> does; zipping \<^verbatim>\<open>None\<close> raises.
\<close>

definition current_hypotheses :: "'tb BeamSearch \<Rightarrow> pyerr + 'tb Hypothesis list" where
  "current_hypotheses s =
     (case hypotheses s of
        None \<Rightarrow> Inl TypeError
      | Some hyps \<Rightarrow>
          (case scores s of
             None \<Rightarrow> Inl TypeError
           | Some sc \<Rightarrow>
               Inr (map (\<lambda>(hyp, tb, x). \<lparr>ids = hyp, tree_builder = tb, score = x, is_terminated = False\<rparr>)
                      (zip hyps (zip (tree_builders s) sc)))))"

text \<open>
  \<^verbatim>\<open>log_probs.size(1)\<close>. A matrix without rows carries no column count in this
  representation and gets 0; such a matrix never passes the shape check of a decoder
  whose batch size is at least one.
\<close>

definition size1 :: "float list list \<Rightarrow> nat" where
  "size1 log_probs = (case log_probs of [] \<Rightarrow> 0 | row # _ \<Rightarrow> length row)"

text \<open>
  \<^verbatim>\<open>_init_state\<close>. \<^verbatim>\<open>torch.empty\<close> leaves the contents of the row mask
  unspecified; they are overwritten before they are read, and are \<open>False\<close> here.
\<close>

definition init_state :: "'tb BeamSearch \<Rightarrow> float list list \<Rightarrow> pyerr + 'tb BeamSearch" where
  "init_state s log_probs =
     (if scores s = None \<and> hypotheses s = None
      then Inr (s\<lparr>scores := Some [Fin 0], hypotheses := Some [[]],
                  row_mask := Some (replicate (size1 log_probs) False)\<rparr>)
      else Inl AssertionError)"

text \<open>
  \<^verbatim>\<open>_step_check\<close>: the asserted condition
  \<^verbatim>\<open>log_probs.size() == (self.batch_size, self._vocab_size)\<close>.
\<close>

definition step_check :: "'tb BeamSearch \<Rightarrow> float list list \<Rightarrow> bool" where
  "step_check s log_probs =
     (length log_probs = batch_size s \<and> list_all (\<lambda>row. length row = vocab_size s) log_probs)"

section \<open>Masking and renormalisation\<close>

text \<open>
  \<^verbatim>\<open>self._row_mask[:] = 1; self._row_mask[possible_ids] = 0\<close> on a mask of
  \<open>n\<close> entries: an id beyond the mask raises.
\<close>

definition make_row_mask :: "nat \<Rightarrow> nat list \<Rightarrow> pyerr + bool list" where
  "make_row_mask n possible_ids =
     (if list_ex (\<lambda>i. n \<le> i) possible_ids then Inl IndexError
      else Inr (map (\<lambda>j. j \<notin> set possible_ids) [0..<n]))"

text \<open>\<^verbatim>\<open>row[mask] = float("-inf")\<close> for a mask as long as the row.\<close>

definition mask_row :: "bool list \<Rightarrow> float list \<Rightarrow> float list" where
  "mask_row m row = map2 (\<lambda>b x. if b then NegInf else x) m row"

text \<open>
  The loop of \<^verbatim>\<open>_preprocess_log_probs\<close> from row \<open>row_id\<close> on. It writes into
  the row mask and into the matrix it was given, which is the caller's own tensor: the
  result is the error raised (if any), the row mask and the caller's matrix as the loop
  leaves them. The row mask is scratch space, rewritten before each use; what it holds
  after a failed index assignment is not modelled.
\<close>

fun mask_rows ::
  "'tb collaborators \<Rightarrow> nat \<Rightarrow> 'tb list \<Rightarrow> bool list \<Rightarrow> float list list
     \<Rightarrow> pyerr option \<times> bool list \<times> float list list" where
  "mask_rows C row_id [] rm log_probs = (None, rm, log_probs)"
| "mask_rows C row_id (tb # tbs) rm log_probs =
     (case make_row_mask (length rm) (get_next_possible_ids C tb) of
        Inl e \<Rightarrow> (Some e, rm, log_probs)
      | Inr rm' \<Rightarrow>
          if length log_probs \<le> row_id then (Some IndexError, rm', log_probs)
          else if length (log_probs ! row_id) \<noteq> length rm' then (Some IndexError, rm', log_probs)
          else mask_rows C (Suc row_id) tbs rm'
                 (log_probs[row_id := mask_row rm' (log_probs ! row_id)]))"

text \<open>
  \<^verbatim>\<open>torch.nn.functional.log_softmax\<close> along one row, over the reals: a NaN or
  \<open>+inf\<close> entry, or a row without a finite entry, makes the whole row NaN; otherwise
  a finite entry \<open>x\<close> becomes \<open>x - ln (\<Sum> exp)\<close> and \<open>-inf\<close> stays \<open>-inf\<close>.
\<close>

definition expf :: "float \<Rightarrow> real" where
  "expf x = (case x of Fin r \<Rightarrow> exp r | _ \<Rightarrow> 0)"

definition log_softmax_row :: "float list \<Rightarrow> float list" where
  "log_softmax_row row =
     (if list_ex (\<lambda>x. x = NaN \<or> x = PosInf) row \<or> list_all (\<lambda>x. x = NegInf) row
      then map (\<lambda>_. NaN) row
      else map (\<lambda>x. case x of Fin r \<Rightarrow> Fin (r - ln (sum_list (map expf row))) | _ \<Rightarrow> NegInf) row)"

text \<open>
  \<^verbatim>\<open>_preprocess_log_probs\<close>: the renormalised matrix is a new tensor; the third
  component is the caller's tensor after the in-place masking.
\<close>

definition preprocess_log_probs ::
  "'tb collaborators \<Rightarrow> 'tb BeamSearch \<Rightarrow> float list list
     \<Rightarrow> (pyerr + float list list) \<times> 'tb BeamSearch \<times> float list list" where
  "preprocess_log_probs C s log_probs =
     (case row_mask s of
        None \<Rightarrow> (Inl TypeError, s, log_probs)
      | Some rm \<Rightarrow>
          (case mask_rows C 0 (tree_builders s) rm log_probs of
             (Some e, rm', lp') \<Rightarrow> (Inl e, s\<lparr>row_mask := Some rm'\<rparr>, lp')
           | (None, rm', lp') \<Rightarrow>
               (Inr (map log_softmax_row lp'), s\<lparr>row_mask := Some rm'\<rparr>, lp')))"

section \<open>Candidate selection and dispatch\<close>

text \<open>
  \<^verbatim>\<open>log_probs.add_(self._scores.unsqueeze(1))\<close> followed by
  \<^verbatim>\<open>torch.flatten\<close>: the running score of row \<open>i\<close> is added to every entry of
  row \<open>i\<close>, and the rows are laid end to end. \<open>step'\<close> calls it with as many scores
  as rows.
\<close>

definition add_scores :: "float list list \<Rightarrow> float list \<Rightarrow> float list list" where
  "add_scores log_probs sc = map2 (\<lambda>row a. map (\<lambda>x. fadd x a) row) log_probs sc"

definition flatten :: "float list list \<Rightarrow> float list" where
  "flatten m = concat m"

text \<open>
  \<^verbatim>\<open>torch.topk(log_probs, k, sorted=False)\<close> is a library primitive. Its contract:
  it returns \<open>k\<close> distinct positions whose values are the \<open>k\<close> largest, not-a-number
  counting as larger than every number; with \<^verbatim>\<open>sorted=False\<close> the order of the
  returned positions is not specified, nor is the choice among equal values.
  \<open>topk_ge a b\<close> is "\<open>a\<close> is at least \<open>b\<close>" in that order.
\<close>

fun topk_ge :: "float \<Rightarrow> float \<Rightarrow> bool" where
  "topk_ge NaN _ = True"
| "topk_ge _ NaN = False"
| "topk_ge PosInf _ = True"
| "topk_ge _ PosInf = False"
| "topk_ge (Fin a) (Fin b) = (b \<le> a)"
| "topk_ge (Fin a) NegInf = True"
| "topk_ge NegInf (Fin b) = False"
| "topk_ge NegInf NegInf = True"

definition is_topk :: "float list \<Rightarrow> nat \<Rightarrow> nat list \<Rightarrow> bool" where
  "is_topk xs k inds =
     (length inds = k \<and> distinct inds \<and> list_all (\<lambda>i. i < length xs) inds \<and>
      list_all (\<lambda>i. list_all (\<lambda>j. j \<in> set inds \<or> topk_ge (xs ! i) (xs ! j)) [0..<length xs]) inds)"

text \<open>
  The four local lists of \<^verbatim>\<open>_step\<close> and the decoder's list of terminated
  hypotheses, which the loop appends to in place.
\<close>

record 'tb drafted =
  d_samples :: "nat list"
  d_tree_builders :: "'tb list"
  d_sort_mask :: "nat list"
  d_sample_scores :: "float list"
  d_terminated :: "'tb Hypothesis list"

text \<open>\<^verbatim>\<open>_save_terminated\<close>, on the token histories the decoder holds before the commit.\<close>

definition save_terminated ::
  "nat list list option \<Rightarrow> nat \<Rightarrow> nat \<Rightarrow> float \<Rightarrow> 'tb \<Rightarrow> 'tb Hypothesis list
     \<Rightarrow> pyerr + 'tb Hypothesis list" where
  "save_terminated hyps hyp_ind sample_ind sc tb terminated =
     (case hyps of
        None \<Rightarrow> Inl TypeError
      | Some hs \<Rightarrow>
          if length hs \<le> hyp_ind then Inl IndexError
          else Inr (terminated @
                 [\<lparr>ids = hs ! hyp_ind @ [sample_ind], tree_builder = tb, score = sc,
                   is_terminated = True\<rparr>]))"

text \<open>
  The body of the loop of \<^verbatim>\<open>_step\<close> after the NaN test, for the candidate at flat
  position \<open>ind\<close> with score \<open>sc\<close>: \<^verbatim>\<open>divmod\<close>, copy and advance the parent's
  tree builder, then either save a terminated hypothesis or extend the four lists.
\<close>

definition dispatch ::
  "'tb collaborators \<Rightarrow> nat \<Rightarrow> 'tb list \<Rightarrow> nat list list option \<Rightarrow> nat \<Rightarrow> float \<Rightarrow> 'tb drafted
     \<Rightarrow> pyerr + 'tb drafted" where
  "dispatch C vocab tbs hyps ind sc d =
     (if vocab = 0 then Inl ZeroDivisionError
      else
        let hyp_ind = ind div vocab; token_ind = ind mod vocab in
        if length tbs \<le> hyp_ind then Inl IndexError
        else
          (case add_id C (tbs ! hyp_ind) token_ind of
             (tb, change_status) \<Rightarrow>
               if change_status = END_LINE then
                 (case save_terminated hyps hyp_ind token_ind sc tb (d_terminated d) of
                    Inl e \<Rightarrow> Inl e
                  | Inr t \<Rightarrow> Inr (d\<lparr>d_terminated := t\<rparr>))
               else
                 Inr (d\<lparr>d_samples := d_samples d @ [token_ind],
                        d_tree_builders := d_tree_builders d @ [tb],
                        d_sort_mask := d_sort_mask d @ [hyp_ind],
                        d_sample_scores := d_sample_scores d @ [sc]\<rparr>)))"

text \<open>
  The loop \<^verbatim>\<open>for ind, score in zip(sorted_inds, sorted_scores)\<close>: it stops at a
  NaN score, at an exception, and once \<^verbatim>\<open>len(samples) == self._beam_size\<close>.
\<close>

fun draft ::
  "'tb collaborators \<Rightarrow> nat \<Rightarrow> nat \<Rightarrow> 'tb list \<Rightarrow> nat list list option \<Rightarrow> (nat \<times> float) list
     \<Rightarrow> 'tb drafted \<Rightarrow> pyerr option \<times> 'tb drafted" where
  "draft C vocab beam tbs hyps [] d = (None, d)"
| "draft C vocab beam tbs hyps ((ind, sc) # rest) d =
     (if isnan sc then (None, d)
      else
        (case dispatch C vocab tbs hyps ind sc d of
           Inl e \<Rightarrow> (Some e, d)
         | Inr d' \<Rightarrow>
             if length (d_samples d') = beam then (None, d')
             else draft C vocab beam tbs hyps rest d'))"

text \<open>
  \<^verbatim>\<open>_update_state\<close>, called where \<^verbatim>\<open>_scores\<close> is a tensor: four attributes
  are assigned, then the token histories are gathered by the sort mask and extended by
  the new tokens (\<^verbatim>\<open>torch.cat\<close> raises when the two have different numbers
  of rows).
\<close>

definition update_state ::
  "'tb BeamSearch \<Rightarrow> nat list \<Rightarrow> nat list \<Rightarrow> float list \<Rightarrow> 'tb list
     \<Rightarrow> pyerr option \<times> 'tb BeamSearch" where
  "update_state s smp sm new_scores tbs =
     (let s1 = s\<lparr>samples := Some smp, sort_mask := Some sm, scores := Some new_scores,
                 tree_builders := tbs\<rparr>
      in case hypotheses s1 of
           None \<Rightarrow> (Some TypeError, s1)
         | Some hyps \<Rightarrow>
             if list_ex (\<lambda>i. length hyps \<le> i) sm then (Some IndexError, s1)
             else if length sm \<noteq> length smp
               then (Some RuntimeError, s1\<lparr>hypotheses := Some (map (\<lambda>i. hyps ! i) sm)\<rparr>)
             else (None, s1\<lparr>hypotheses := Some (map2 (\<lambda>h t. h @ [t]) (map (\<lambda>i. hyps ! i) sm) smp)\<rparr>))"

text \<open>
  The scores \<^verbatim>\<open>_step\<close> hands to \<^verbatim>\<open>torch.topk\<close>, and the number of candidates
  it asks for.
\<close>

definition candidate_scores :: "float list list \<Rightarrow> float list \<Rightarrow> float list" where
  "candidate_scores log_probs sc = flatten (add_scores log_probs sc)"

definition num_candidates :: "'tb collaborators \<Rightarrow> 'tb BeamSearch \<Rightarrow> nat" where
  "num_candidates C s = (1 + get_num_newline_nodes C) * beam_size s"

text \<open>
  \<^verbatim>\<open>_step\<close>. \<open>sorted_inds\<close> is what \<^verbatim>\<open>torch.topk\<close> returned for the
  candidate scores (the source's variable of that name); the scores it returns with
  them are the candidate scores at these positions. \<^verbatim>\<open>torch.topk\<close> raises when
  asked for more candidates than there are. The result is the value returned (or the
  exception raised) and the decoder state as the call leaves it.
\<close>

definition step' ::
  "'tb collaborators \<Rightarrow> 'tb BeamSearch \<Rightarrow> float list list \<Rightarrow> nat list
     \<Rightarrow> (pyerr + nat list option) \<times> 'tb BeamSearch" where
  "step' C s log_probs sorted_inds =
     (case scores s of
        None \<Rightarrow> (Inl TypeError, s)
      | Some sc \<Rightarrow>
          if length sc \<noteq> length log_probs then (Inl RuntimeError, s)
          else
            let flat = candidate_scores log_probs sc in
            if length flat < num_candidates C s then (Inl RuntimeError, s)
            else
              (case draft C (vocab_size s) (beam_size s) (tree_builders s) (hypotheses s)
                      (map (\<lambda>i. (i, flat ! i)) sorted_inds)
                      \<lparr>d_samples = [], d_tree_builders = [], d_sort_mask = [],
                       d_sample_scores = [], d_terminated = terminated_hypotheses s\<rparr> of
                 (err, d) \<Rightarrow>
                   let s1 = s\<lparr>terminated_hypotheses := d_terminated d\<rparr> in
                   (case err of
                      Some e \<Rightarrow> (Inl e, s1)
                    | None \<Rightarrow>
                        if d_samples d = [] then (Inr None, s1)
                        else
                          (case update_state s1 (d_samples d) (d_sort_mask d)
                                  (d_sample_scores d) (d_tree_builders d) of
                             (Some e, s2) \<Rightarrow> (Inl e, s2)
                           | (None, s2) \<Rightarrow>
                               (Inr (sort_mask s2), s2\<lparr>length_bs := length_bs s2 + 1\<rparr>)))))"

text \<open>
  The first statement of \<^verbatim>\<open>step\<close>: on a decoder that is not yet initialised,
  \<^verbatim>\<open>_init_state\<close> runs and the flag is set.
\<close>

definition ensure_initialized :: "'tb BeamSearch \<Rightarrow> float list list \<Rightarrow> pyerr + 'tb BeamSearch" where
  "ensure_initialized s log_probs =
     (if is_initialized s then Inr s
      else (case init_state s log_probs of
              Inl e \<Rightarrow> Inl e
            | Inr s' \<Rightarrow> Inr (s'\<lparr>is_initialized := True\<rparr>)))"

text \<open>
  \<^verbatim>\<open>step\<close>: deferred initialisation on the first call, then the shape check, the
  masking and renormalisation, and \<^verbatim>\<open>_step\<close>. The third component of the result is
  the caller's tensor as the call leaves it.
\<close>

definition step ::
  "'tb collaborators \<Rightarrow> 'tb BeamSearch \<Rightarrow> float list list \<Rightarrow> nat list
     \<Rightarrow> (pyerr + nat list option) \<times> 'tb BeamSearch \<times> float list list" where
  "step C s log_probs sorted_inds =
     (case ensure_initialized s log_probs of
        Inl e \<Rightarrow> (Inl e, s, log_probs)
      | Inr s0 \<Rightarrow>
          if \<not> step_check s0 log_probs then (Inl AssertionError, s0, log_probs)
          else
            (case preprocess_log_probs C s0 log_probs of
               (Inl e, s1, lp') \<Rightarrow> (Inl e, s1, lp')
             | (Inr normalized, s1, lp') \<Rightarrow>
                 (case step' C s1 normalized sorted_inds of (r, s2) \<Rightarrow> (r, s2, lp'))))"

text \<open>A session: the decoder state after a sequence of \<^verbatim>\<open>step\<close> calls.\<close>

fun run ::
  "'tb collaborators \<Rightarrow> 'tb BeamSearch \<Rightarrow> (float list list \<times> nat list) list \<Rightarrow> 'tb BeamSearch" where
  "run C s [] = s"
| "run C s ((log_probs, sorted_inds) # calls) = run C (fst (snd (step C s log_probs sorted_inds))) calls"

text \<open>The three components of the outcome of a \<^verbatim>\<open>step\<close> call.\<close>

definition returned ::
  "'tb collaborators \<Rightarrow> 'tb BeamSearch \<Rightarrow> float list list \<Rightarrow> nat list \<Rightarrow> pyerr + nat list option" where
  "returned C s log_probs sorted_inds = fst (step C s log_probs sorted_inds)"

definition state_after ::
  "'tb collaborators \<Rightarrow> 'tb BeamSearch \<Rightarrow> float list list \<Rightarrow> nat list \<Rightarrow> 'tb BeamSearch" where
  "state_after C s log_probs sorted_inds = fst (snd (step C s log_probs sorted_inds))"

definition tensor_after ::
  "'tb collaborators \<Rightarrow> 'tb BeamSearch \<Rightarrow> float list list \<Rightarrow> nat list \<Rightarrow> float list list" where
  "tensor_after C s log_probs sorted_inds = snd (snd (step C s log_probs sorted_inds))"

text \<open>
  What the masking is to leave in a row, in the words of the specification: the entry
  of every column that is not a legal next token is negative infinity, the others are
  as the caller supplied them.
\<close>

definition mask_illegal :: "nat list \<Rightarrow> float list \<Rightarrow> float list" where
  "mask_illegal legal row =
     map (\<lambda>j. if j \<in> set legal then row ! j else NegInf) [0..<length row]"

text \<open>
  A decoder as the constructor and every commit leave it: one tree builder for each row
  of the beam and, once the deferred initialisation has run, a row mask with one entry
  for each token of the vocabulary.
\<close>

definition ready :: "'tb BeamSearch \<Rightarrow> bool" where
  "ready s =
     (length (tree_builders s) = batch_size s \<and>
      (if is_initialized s
       then (case row_mask s of None \<Rightarrow> False | Some rm \<Rightarrow> length rm = vocab_size s)
       else scores s = None \<and> hypotheses s = None))"

section \<open>The dispatch of a step, in the words of the specification\<close>

text \<open>
  Step 5 of the specification: the selected candidates are taken in the order given;
  a NaN score ends the scan; each candidate taken is advanced, and either completes its
  sequence or continues; the scan stops as soon as \<open>beam_size\<close> continuing
  hypotheses have been produced. \<open>dispatched\<close> is the list of candidates taken, given
  the number of continuing hypotheses produced so far; \<open>completes\<close> tells whether the
  advance of a candidate reports \<^verbatim>\<open>END_LINE\<close>; \<open>terminated_of\<close> is the terminated
  hypothesis the specification asks for: the parent's tokens followed by the chosen
  token, the advanced builder, the candidate's score, and \<open>is_terminated\<close> true.
\<close>

definition completes :: "'tb collaborators \<Rightarrow> nat \<Rightarrow> 'tb list \<Rightarrow> nat \<times> float \<Rightarrow> bool" where
  "completes C vocab tbs c =
     (snd (add_id C (tbs ! (fst c div vocab)) (fst c mod vocab)) = END_LINE)"

definition terminated_of ::
  "'tb collaborators \<Rightarrow> nat \<Rightarrow> 'tb list \<Rightarrow> nat list list \<Rightarrow> nat \<times> float \<Rightarrow> 'tb Hypothesis" where
  "terminated_of C vocab tbs hs c =
     \<lparr>ids = hs ! (fst c div vocab) @ [fst c mod vocab],
      tree_builder = fst (add_id C (tbs ! (fst c div vocab)) (fst c mod vocab)),
      score = snd c, is_terminated = True\<rparr>"

fun dispatched ::
  "'tb collaborators \<Rightarrow> nat \<Rightarrow> nat \<Rightarrow> 'tb list \<Rightarrow> (nat \<times> float) list \<Rightarrow> nat
     \<Rightarrow> (nat \<times> float) list" where
  "dispatched C vocab beam tbs [] n = []"
| "dispatched C vocab beam tbs (c # cs) n =
     (if isnan (snd c) then []
      else c # (let n' = (if completes C vocab tbs c then n else Suc n)
                in if n' = beam then [] else dispatched C vocab beam tbs cs n'))"

text \<open>
  The candidates of a \<^verbatim>\<open>step\<close> call: the positions \<^verbatim>\<open>torch.topk\<close> returned,
  each with its score among the renormalised scores of the masked matrix plus the
  running scores \<open>sc\<close> of the rows.
\<close>

definition step_candidates ::
  "'tb collaborators \<Rightarrow> 'tb BeamSearch \<Rightarrow> float list \<Rightarrow> float list list \<Rightarrow> nat list
     \<Rightarrow> (nat \<times> float) list" where
  "step_candidates C s sc log_probs sorted_inds =
     map (\<lambda>i. (i, candidate_scores (map log_softmax_row (tensor_after C s log_probs sorted_inds)) sc ! i))
       sorted_inds"

section \<open>Concrete collaborators and inputs\<close>

text \<open>
  Tree builders without state over a vocabulary of four tokens, each with one newline
  node (so that \<open>2 * beam_size\<close> candidates are requested). \<open>free_builder\<close> allows
  every token and completes the line on token 3; \<open>only_two\<close> allows token 2 alone
  and never completes; \<open>closing\<close> allows every token and completes on each.
\<close>

definition free_builder :: "unit collaborators" where
  "free_builder =
     \<lparr>get_next_possible_ids = (\<lambda>_. [0, 1, 2, 3]),
      add_id = (\<lambda>tb t. (tb, if t = 3 then END_LINE else NOT_COMPLETE)),
      get_num_newline_nodes = 1\<rparr>"

definition only_two :: "unit collaborators" where
  "only_two =
     \<lparr>get_next_possible_ids = (\<lambda>_. [2]),
      add_id = (\<lambda>tb t. (tb, NOT_COMPLETE)),
      get_num_newline_nodes = 1\<rparr>"

definition closing :: "unit collaborators" where
  "closing =
     \<lparr>get_next_possible_ids = (\<lambda>_. [0, 1, 2, 3]),
      add_id = (\<lambda>tb t. (tb, END_LINE)),
      get_num_newline_nodes = 1\<rparr>"

text \<open>
  A tree builder that counts the tokens it was given: it allows every token, continues
  on the first and completes the line on every later one.
\<close>

definition two_tokens :: "nat collaborators" where
  "two_tokens =
     \<lparr>get_next_possible_ids = (\<lambda>_. [0, 1, 2, 3]),
      add_id = (\<lambda>tb t. (Suc tb, if tb = 0 then NOT_COMPLETE else END_LINE)),
      get_num_newline_nodes = 1\<rparr>"

text \<open>The scores of the first step in the scenario of the specification.\<close>

definition scenario_scores :: "float list list" where
  "scenario_scores = [[Fin (- 1 / 10), Fin (- 2), Fin (- 1 / 20), Fin (- 3)]]"

text \<open>Scores for a second step with two active rows.\<close>

definition second_scores :: "float list list" where
  "second_scores =
     [[Fin (- 1 / 10), Fin (- 2), Fin (- 1 / 20), Fin (- 3)],
      [Fin (- 1 / 10), Fin (- 2), Fin (- 1 / 20), Fin (- 3)]]"

text \<open>A matrix with three columns, for a decoder whose vocabulary has four tokens.\<close>

definition narrow_scores :: "float list list" where
  "narrow_scores = [[Fin 0, Fin 0, Fin 0]]"

section \<open>Length normalisation: results\<close>

lemma norm_factor_pos:
  assumes "0 < (b + l) / (b + 1)" and "b + 1 \<noteq> 0"
  shows "norm_factor b p l = Inr (((b + l) / (b + 1)) powr p)"
  using assms by (auto simp: norm_factor_def float_pow_def)

lemma div_by_norm_pos:
  assumes "0 < x"
  shows "div_by_norm s (Inr (x powr p)) = Inr (fdiv s (x powr p))"
  using assms by (simp add: div_by_norm_def)

lemma get_normalized_score_Fin:
  assumes "score h = Fin r" and "b + 1 \<noteq> 0" and "0 < (b + real (length (ids h))) / (b + 1)"
  shows "get_normalized_score h b p =
           Inr (Fin (spec_normalized_score r (real (length (ids h))) b p))"
  using assms
  by (simp add: get_normalized_score_def norm_factor_pos div_by_norm_pos
        spec_normalized_score_def)

lemma normalize_score_Fin:
  assumes "b + 1 \<noteq> 0" and "0 < (b + real_of_int l) / (b + 1)"
  shows "normalize_score b p l (Fin r) =
           Inr (Fin (r / (((b + real_of_int l) / (b + 1)) powr p)))"
  using assms by (simp add: normalize_score_def norm_factor_pos div_by_norm_pos)

lemma spec_normalized_score_mono_length:
  fixes r b p :: real and m n :: nat
  assumes "r < 0" and "0 < p" and "0 < b" and "m < n"
  shows "spec_normalized_score r (real m) b p < spec_normalized_score r (real n) b p"
proof -
  let ?x = "(b + real m) / (b + 1)" and ?y = "(b + real n) / (b + 1)"
  have x0: "0 < ?x" using assms by simp
  have xy: "?x < ?y" using assms by (simp add: divide_strict_right_mono)
  have p1: "?x powr p < ?y powr p" using x0 xy assms(2) by (simp add: powr_less_mono2)
  have p0: "0 < ?x powr p"
    using assms(3) by (simp add: add_pos_nonneg less_imp_neq[symmetric])
  have q0: "0 < ?y powr p"
    using assms(3) by (simp add: add_pos_nonneg less_imp_neq[symmetric])
  have "r / ?x powr p < r / ?y powr p"
    by (rule divide_strict_left_mono_neg[OF p1 assms(1) mult_pos_pos[OF p0 q0]])
  then show ?thesis by (simp add: spec_normalized_score_def)
qed

text \<open>
  C3, as stated, fails for the evaluation-time post-processor: for a hypothesis of
  length 1 with raw score 0 (base 10, power 0.7) the key \<^verbatim>\<open>_normalize_score\<close>
  returns is 0, while the formula of the claim gives \<open>exp 0 = 1\<close>.
\<close>

theorem C3_postprocessor_key_counterexample:
  "normalize_score 10 (7/10) 1 (Fin 0) = Inr (Fin 0) \<and>
   spec_normalized_score 0 (real_of_int 1) 10 (7/10) = 1 \<and>
   normalize_score 10 (7/10) 1 (Fin 0)
     \<noteq> Inr (Fin (spec_normalized_score 0 (real_of_int 1) 10 (7/10)))"
  by (simp add: normalize_score_def norm_factor_def float_pow_def div_by_norm_def
        spec_normalized_score_def)

text \<open>
  C3, amended: for a finite raw score and a positive ratio
  \<open>(base + length) / (base + 1)\<close>, the decoder's
  \<^verbatim>\<open>Hypothesis.get_normalized_score\<close> returns
  \<open>exp (raw_score / ((base + length) / (base + 1)) ** pow)\<close>; the post-processor's
  ranking key \<^verbatim>\<open>_normalize_score\<close> is \<open>raw_score / ((base + length) / (base + 1)) ** pow\<close>
  without the exponential, that is, a number whose exponential is the formula's value,
  so both order hypotheses alike.
\<close>

theorem C3_normalized_score_amended:
  assumes "score h = Fin r" and "b + 1 \<noteq> 0"
    and "0 < (b + real (length (ids h))) / (b + 1)"
    and "0 < (b + real_of_int l) / (b + 1)"
  shows "get_normalized_score h b p =
           Inr (Fin (spec_normalized_score r (real (length (ids h))) b p)) \<and>
         normalize_score b p l (Fin r') =
           Inr (Fin (r' / (((b + real_of_int l) / (b + 1)) powr p))) \<and>
         exp (r' / (((b + real_of_int l) / (b + 1)) powr p)) =
           spec_normalized_score r' (real_of_int l) b p"
  using get_normalized_score_Fin[OF assms(1-3)] normalize_score_Fin[OF assms(2,4)]
  by (simp add: spec_normalized_score_def)

theorem C3_normalized_score_amended_witness:
  "score \<lparr>ids = [3, 1], tree_builder = (), score = Fin (-2), is_terminated = True\<rparr> = Fin (-2) \<and>
   (5::real) + 1 \<noteq> 0 \<and>
   get_normalized_score \<lparr>ids = [3, 1], tree_builder = (), score = Fin (-2), is_terminated = True\<rparr>
       5 (7/10)
     = Inr (Fin (spec_normalized_score (-2) 2 5 (7/10))) \<and>
   normalize_score 5 (7/10) 2 (Fin (-2)) = Inr (Fin (-2 / ((7 / 6) powr (7/10))))"
  using C3_normalized_score_amended
    [of "\<lparr>ids = [3, 1], tree_builder = (), score = Fin (-2), is_terminated = True\<rparr>"
        "-2" 5 2 "7/10" "-2"]
  by simp

text \<open>
  C9, as stated, fails: with the source's defaults (base 5, power 0.7) and raw score
  \<open>-1\<close>, a hypothesis of length 1 gets \<open>exp (-1)\<close> and one of length 7 gets
  \<open>exp (-1 / 2 powr 0.7)\<close>, which is larger: the normalised score went up with the
  length, not down.
\<close>

theorem C9_decreasing_counterexample:
  "get_normalized_score \<lparr>ids = [0], tree_builder = (), score = Fin (-1), is_terminated = True\<rparr>
       5 (7/10) = Inr (Fin (exp (-1))) \<and>
   get_normalized_score
       \<lparr>ids = [0, 0, 0, 0, 0, 0, 0], tree_builder = (), score = Fin (-1), is_terminated = True\<rparr>
       5 (7/10) = Inr (Fin (exp (-1 / 2 powr (7/10)))) \<and>
   exp (-1) < exp (-1 / 2 powr (7/10) :: real)"
  by (simp add: get_normalized_score_def norm_factor_def float_pow_def div_by_norm_def)

text \<open>
  C9, amended: for a fixed negative raw score, \<open>pow > 0\<close> and \<open>base > 0\<close>, the
  normalised score is strictly increasing in the length (a longer hypothesis with the
  same raw score ranks higher); and for length 1 the normalisation factor is 1, so the
  normalised score is \<open>exp raw_score\<close>.
\<close>

theorem C9_normalized_score_increasing:
  assumes "r < 0" and "0 < p" and "0 < b"
    and "score h1 = Fin r" and "score h2 = Fin r"
    and "length (ids h1) < length (ids h2)"
  shows "(\<exists>x y. get_normalized_score h1 b p = Inr (Fin x) \<and>
                get_normalized_score h2 b p = Inr (Fin y) \<and> x < y) \<and>
         (length (ids h1) = 1 \<longrightarrow> get_normalized_score h1 b p = Inr (Fin (exp r)))"
proof -
  have b1: "b + 1 \<noteq> 0" using assms(3) by simp
  have r1: "0 < (b + real (length (ids h1))) / (b + 1)" using assms(3) by (simp add: add_pos_nonneg)
  have r2: "0 < (b + real (length (ids h2))) / (b + 1)" using assms(3) by (simp add: add_pos_nonneg)
  note g1 = get_normalized_score_Fin[OF assms(4) b1 r1, of p]
  note g2 = get_normalized_score_Fin[OF assms(5) b1 r2, of p]
  have lt: "spec_normalized_score r (real (length (ids h1))) b p
              < spec_normalized_score r (real (length (ids h2))) b p"
    by (rule spec_normalized_score_mono_length[OF assms(1-3) assms(6)])
  have one: "length (ids h1) = 1 \<Longrightarrow> spec_normalized_score r (real (length (ids h1))) b p = exp r"
    using b1 by (simp add: spec_normalized_score_def)
  show ?thesis using g1 g2 lt one by simp
qed

theorem C9_normalized_score_increasing_witness:
  "(\<exists>x y. get_normalized_score
              \<lparr>ids = [4], tree_builder = (), score = Fin (-1), is_terminated = True\<rparr> 5 (7/10)
              = Inr (Fin x) \<and>
          get_normalized_score
              \<lparr>ids = [4, 2, 9], tree_builder = (), score = Fin (-1), is_terminated = True\<rparr> 5 (7/10)
              = Inr (Fin y) \<and> x < y) \<and>
   get_normalized_score \<lparr>ids = [4], tree_builder = (), score = Fin (-1), is_terminated = True\<rparr>
       5 (7/10) = Inr (Fin (exp (-1)))"
  using C9_normalized_score_increasing
    [of "-1" "7/10" 5
        "\<lparr>ids = [4], tree_builder = (), score = Fin (-1), is_terminated = True\<rparr>"
        "\<lparr>ids = [4, 2, 9], tree_builder = (), score = Fin (-1), is_terminated = True\<rparr>"]
  by auto

section \<open>The dispatch loop: invariants\<close>

text \<open>What one successful pass through the loop body does to the lists.\<close>

lemma dispatch_cases:
  assumes "dispatch C V tbs hyps ind sc d = Inr d'"
  shows "0 < V \<and> ind div V < length tbs \<and>
    ((snd (add_id C (tbs ! (ind div V)) (ind mod V)) = END_LINE \<and>
       (\<exists>hs. hyps = Some hs \<and> ind div V < length hs \<and>
         d' = d\<lparr>d_terminated := d_terminated d @
                 [\<lparr>ids = hs ! (ind div V) @ [ind mod V],
                   tree_builder = fst (add_id C (tbs ! (ind div V)) (ind mod V)),
                   score = sc, is_terminated = True\<rparr>]\<rparr>))
     \<or> (snd (add_id C (tbs ! (ind div V)) (ind mod V)) \<noteq> END_LINE \<and>
         d' = d\<lparr>d_samples := d_samples d @ [ind mod V],
                d_tree_builders := d_tree_builders d @ [fst (add_id C (tbs ! (ind div V)) (ind mod V))],
                d_sort_mask := d_sort_mask d @ [ind div V],
                d_sample_scores := d_sample_scores d @ [sc]\<rparr>))"
  using assms
  by (auto simp: dispatch_def Let_def save_terminated_def
           split: if_splits prod.splits sum.splits option.splits)

lemma draft_lengths:
  assumes "draft C V B tbs hyps cs d = (e, d')"
    and "length (d_sort_mask d) = length (d_samples d)"
    and "length (d_sample_scores d) = length (d_samples d)"
    and "length (d_tree_builders d) = length (d_samples d)"
  shows "length (d_sort_mask d') = length (d_samples d') \<and>
         length (d_sample_scores d') = length (d_samples d') \<and>
         length (d_tree_builders d') = length (d_samples d')"
  using assms
proof (induction cs arbitrary: d)
  case Nil
  then show ?case by simp
next
  case (Cons c cs)
  obtain ind sc where c: "c = (ind, sc)" by (cases c)
  show ?case
  proof (cases "isnan sc")
    case True
    with Cons.prems c show ?thesis by simp
  next
    case False
    show ?thesis
    proof (cases "dispatch C V tbs hyps ind sc d")
      case (Inl e')
      with Cons.prems c False show ?thesis by simp
    next
      case (Inr d1)
      from dispatch_cases[OF Inr] Cons.prems(2-4)
      have l1: "length (d_sort_mask d1) = length (d_samples d1)"
               "length (d_sample_scores d1) = length (d_samples d1)"
               "length (d_tree_builders d1) = length (d_samples d1)"
        by auto
      show ?thesis
      proof (cases "length (d_samples d1) = B")
        case True
        with Cons.prems(1) c False Inr l1 show ?thesis by simp
      next
        case F2: False
        with Cons.prems(1) c False Inr have "draft C V B tbs hyps cs d1 = (e, d')" by simp
        from Cons.IH[OF this l1] show ?thesis .
      qed
    qed
  qed
qed

text \<open>A property kept by every pass through the loop body holds when the loop ends.\<close>

lemma draft_invariant:
  assumes "draft C V B tbs hyps cs d = (e, d')" and "P d"
    and "\<And>ind sc d0 d1. (ind, sc) \<in> set cs \<Longrightarrow> \<not> isnan sc \<Longrightarrow> P d0 \<Longrightarrow>
           dispatch C V tbs hyps ind sc d0 = Inr d1 \<Longrightarrow> P d1"
  shows "P d'"
  using assms
proof (induction cs arbitrary: d)
  case Nil
  then show ?case by simp
next
  case (Cons c cs)
  obtain ind sc where c: "c = (ind, sc)" by (cases c)
  have step: "\<And>ind sc d0 d1. (ind, sc) \<in> set cs \<Longrightarrow> \<not> isnan sc \<Longrightarrow> P d0 \<Longrightarrow>
           dispatch C V tbs hyps ind sc d0 = Inr d1 \<Longrightarrow> P d1"
    using Cons.prems(3) by (meson list.set_intros(2))
  show ?case
  proof (cases "isnan sc")
    case True
    with Cons.prems c show ?thesis by simp
  next
    case False
    show ?thesis
    proof (cases "dispatch C V tbs hyps ind sc d")
      case (Inl e')
      with Cons.prems c False show ?thesis by simp
    next
      case (Inr d1)
      have P1: "P d1" using Cons.prems(3)[of ind sc d d1] c False Cons.prems(2) Inr by simp
      show ?thesis
      proof (cases "length (d_samples d1) = B")
        case True
        with Cons.prems(1) c False Inr P1 show ?thesis by simp
      next
        case F2: False
        with Cons.prems(1) c False Inr have "draft C V B tbs hyps cs d1 = (e, d')" by simp
        from Cons.IH[OF this P1 step] show ?thesis by simp
      qed
    qed
  qed
qed

lemma draft_le_beam:
  assumes "draft C V B tbs hyps cs d = (e, d')" and "length (d_samples d) < B"
  shows "length (d_samples d') \<le> B"
  using assms
proof (induction cs arbitrary: d)
  case Nil
  then show ?case by simp
next
  case (Cons c cs)
  obtain ind sc where c: "c = (ind, sc)" by (cases c)
  show ?case
  proof (cases "isnan sc")
    case True
    with Cons.prems c show ?thesis by simp
  next
    case False
    show ?thesis
    proof (cases "dispatch C V tbs hyps ind sc d")
      case (Inl e')
      with Cons.prems c False show ?thesis by simp
    next
      case (Inr d1)
      from dispatch_cases[OF Inr] Cons.prems(2)
      have l1: "length (d_samples d1) \<le> B" by auto
      show ?thesis
      proof (cases "length (d_samples d1) = B")
        case True
        with Cons.prems(1) c False Inr show ?thesis by simp
      next
        case F2: False
        with Cons.prems(1) c False Inr have "draft C V B tbs hyps cs d1 = (e, d')" by simp
        from Cons.IH[OF this] l1 F2 show ?thesis by simp
      qed
    qed
  qed
qed

lemma draft_sort_mask_range:
  assumes "draft C V B tbs hyps cs d = (e, d')"
    and "\<forall>v\<in>set (d_sort_mask d). v < n"
    and "\<forall>c\<in>set cs. fst c < n * V"
  shows "\<forall>v\<in>set (d_sort_mask d'). v < n"
proof (rule draft_invariant[OF assms(1), where P = "\<lambda>d. \<forall>v\<in>set (d_sort_mask d). v < n"])
  show "\<forall>v\<in>set (d_sort_mask d). v < n" by (rule assms(2))
next
  fix ind sc d0 d1
  assume a: "(ind, sc) \<in> set cs" "\<forall>v\<in>set (d_sort_mask d0). v < n"
     "dispatch C V tbs hyps ind sc d0 = Inr d1"
  from a(1) assms(3) have "ind < n * V" by fastforce
  then have "ind div V < n" by (simp add: less_mult_imp_div_less)
  with dispatch_cases[OF a(3)] a(2) show "\<forall>v\<in>set (d_sort_mask d1). v < n" by auto
qed

lemma draft_terminated_grows:
  assumes "draft C V B tbs hyps cs d = (e, d')"
  shows "\<exists>new. d_terminated d' = d_terminated d @ new \<and>
           (\<forall>h\<in>set new. is_terminated h \<and> \<not> isnan (score h))"
proof (rule draft_invariant[OF assms, where P = "\<lambda>x. \<exists>new. d_terminated x = d_terminated d @ new \<and>
           (\<forall>h\<in>set new. is_terminated h \<and> \<not> isnan (score h))"])
  show "\<exists>new. d_terminated d = d_terminated d @ new \<and> (\<forall>h\<in>set new. is_terminated h \<and> \<not> isnan (score h))"
    by simp
next
  fix ind sc d0 d1
  assume a: "\<not> isnan sc" "\<exists>new. d_terminated d0 = d_terminated d @ new \<and>
           (\<forall>h\<in>set new. is_terminated h \<and> \<not> isnan (score h))"
     "dispatch C V tbs hyps ind sc d0 = Inr d1"
  from a(2) obtain new where n: "d_terminated d0 = d_terminated d @ new"
     "\<forall>h\<in>set new. is_terminated h \<and> \<not> isnan (score h)" by blast
  from dispatch_cases[OF a(3)]
  consider (t) h where "d_terminated d1 = d_terminated d0 @ [h]" "is_terminated h" "score h = sc"
    | (c) "d_terminated d1 = d_terminated d0"
    by auto
  then show "\<exists>new. d_terminated d1 = d_terminated d @ new \<and>
           (\<forall>h\<in>set new. is_terminated h \<and> \<not> isnan (score h))"
  proof cases
    case t
    then have "d_terminated d1 = d_terminated d @ (new @ [h])" using n by simp
    moreover have "\<forall>x\<in>set (new @ [h]). is_terminated x \<and> \<not> isnan (score x)"
      using n(2) t a(1) by auto
    ultimately show ?thesis by blast
  next
    case c
    then show ?thesis using n by auto
  qed
qed

lemma draft_scores_not_nan:
  assumes "draft C V B tbs hyps cs d = (e, d')"
    and "\<forall>x\<in>set (d_sample_scores d). \<not> isnan x"
  shows "\<forall>x\<in>set (d_sample_scores d'). \<not> isnan x"
proof (rule draft_invariant[OF assms(1), where P = "\<lambda>d. \<forall>x\<in>set (d_sample_scores d). \<not> isnan x"])
  show "\<forall>x\<in>set (d_sample_scores d). \<not> isnan x" by (rule assms(2))
next
  fix ind sc d0 d1
  assume a: "\<not> isnan sc" "\<forall>x\<in>set (d_sample_scores d0). \<not> isnan x"
     "dispatch C V tbs hyps ind sc d0 = Inr d1"
  with dispatch_cases[OF a(3)] show "\<forall>x\<in>set (d_sample_scores d1). \<not> isnan x" by auto
qed

section \<open>The step: how a call decomposes\<close>

lemma is_topkD:
  assumes "is_topk xs k inds"
  shows "length inds = k" and "\<forall>i\<in>set inds. i < length xs"
  using assms by (auto simp: is_topk_def list_all_iff)

lemma ensure_initialized_frame:
  assumes "ensure_initialized s lp = Inr s0"
  shows "batch_size s0 = batch_size s" "vocab_size s0 = vocab_size s"
    "beam_size s0 = beam_size s" "tree_builders s0 = tree_builders s"
    "terminated_hypotheses s0 = terminated_hypotheses s"
    "length_bs s0 = length_bs s" "sort_mask s0 = sort_mask s" "samples s0 = samples s"
    "is_initialized s \<Longrightarrow> s0 = s"
  using assms
  by (auto simp: ensure_initialized_def init_state_def batch_size_def split: if_splits)

lemma preprocess_frame:
  assumes "preprocess_log_probs C s0 lp = (r, s1, lp')"
  shows "s1 = s0\<lparr>row_mask := row_mask s1\<rparr>"
  using assms
  by (auto simp: preprocess_log_probs_def split: option.splits prod.splits)

lemma step_Inr:
  assumes "step C s lp sel = (Inr r, s', lp')"
  shows "\<exists>s0 s1 nl. ensure_initialized s lp = Inr s0 \<and> step_check s0 lp \<and>
    preprocess_log_probs C s0 lp = (Inr nl, s1, lp') \<and> step' C s1 nl sel = (Inr r, s')"
proof (cases "ensure_initialized s lp")
  case (Inl e)
  then show ?thesis using assms by (simp add: step_def)
next
  case (Inr s0)
  show ?thesis
  proof (cases "step_check s0 lp")
    case False
    then show ?thesis using assms Inr by (simp add: step_def)
  next
    case True
    obtain pr s1 lp1 where p: "preprocess_log_probs C s0 lp = (pr, s1, lp1)"
      by (cases "preprocess_log_probs C s0 lp") auto
    show ?thesis
    proof (cases pr)
      case (Inl e)
      then show ?thesis using assms Inr True p by (simp add: step_def)
    next
      case (Inr nl)
      obtain r2 s2 where q: "step' C s1 nl sel = (r2, s2)" by (cases "step' C s1 nl sel") auto
      have "step C s lp sel = (r2, s2, lp1)"
        using \<open>ensure_initialized s lp = Inr s0\<close> True p Inr q by (simp add: step_def)
      with assms have "r2 = Inr r" "s2 = s'" "lp1 = lp'" by simp_all
      then show ?thesis using \<open>ensure_initialized s lp = Inr s0\<close> True p Inr q by simp
    qed
  qed
qed


lemma update_state_frame:
  assumes "update_state s smp sm ns tbs = (e, s2)"
  shows "terminated_hypotheses s2 = terminated_hypotheses s" "beam_size s2 = beam_size s"
    "vocab_size s2 = vocab_size s" "scores s2 = Some ns" "sort_mask s2 = Some sm"
    "tree_builders s2 = tbs" "length_bs s2 = length_bs s"
  using assms
  by (auto simp: update_state_def Let_def split: option.splits if_splits)

lemma step'_draft:
  assumes "scores s = Some sc" and "length sc = length nl"
    and "\<not> length (candidate_scores nl sc) < num_candidates C s"
    and "draft C (vocab_size s) (beam_size s) (tree_builders s) (hypotheses s)
           (map (\<lambda>i. (i, candidate_scores nl sc ! i)) sel)
           \<lparr>d_samples = [], d_tree_builders = [], d_sort_mask = [],
            d_sample_scores = [], d_terminated = terminated_hypotheses s\<rparr> = (err, d)"
  shows "step' C s nl sel =
     (case err of
        Some e \<Rightarrow> (Inl e, s\<lparr>terminated_hypotheses := d_terminated d\<rparr>)
      | None \<Rightarrow>
          if d_samples d = [] then (Inr None, s\<lparr>terminated_hypotheses := d_terminated d\<rparr>)
          else
            (case update_state (s\<lparr>terminated_hypotheses := d_terminated d\<rparr>) (d_samples d)
                    (d_sort_mask d) (d_sample_scores d) (d_tree_builders d) of
               (Some e, s2) \<Rightarrow> (Inl e, s2)
             | (None, s2) \<Rightarrow> (Inr (sort_mask s2), s2\<lparr>length_bs := length_bs s2 + 1\<rparr>)))"
  unfolding step'_def Let_def assms(1) option.case if_not_P[OF assms(3)] assms(4) prod.case
  using assms(2) by simp

lemma step'_Inr:
  assumes "step' C s nl sel = (Inr r, s')"
  shows "\<exists>sc d. scores s = Some sc \<and> length sc = length nl \<and>
    draft C (vocab_size s) (beam_size s) (tree_builders s) (hypotheses s)
        (map (\<lambda>i. (i, candidate_scores nl sc ! i)) sel)
        \<lparr>d_samples = [], d_tree_builders = [], d_sort_mask = [],
         d_sample_scores = [], d_terminated = terminated_hypotheses s\<rparr> = (None, d) \<and>
    (if d_samples d = [] then r = None \<and> s' = s\<lparr>terminated_hypotheses := d_terminated d\<rparr>
     else r = Some (d_sort_mask d) \<and> scores s' = Some (d_sample_scores d)
        \<and> beam_size s' = beam_size s \<and> vocab_size s' = vocab_size s
        \<and> terminated_hypotheses s' = d_terminated d \<and> tree_builders s' = d_tree_builders d)"
proof (cases "scores s")
  case None
  then show ?thesis using assms by (simp add: step'_def)
next
  case (Some sc)
  show ?thesis
  proof (cases "length sc = length nl \<and> \<not> length (candidate_scores nl sc) < num_candidates C s")
    case False
    have "fst (step' C s nl sel) = Inl RuntimeError"
    proof (cases "length sc = length nl")
      case True
      with False Some show ?thesis by (simp add: step'_def Let_def)
    next
      case F: False
      with Some show ?thesis by (simp add: step'_def)
    qed
    then show ?thesis using assms by simp
  next
    case True
    let ?s1 = "\<lambda>d. s\<lparr>terminated_hypotheses := d_terminated d\<rparr>"
    obtain err d where dr: "draft C (vocab_size s) (beam_size s) (tree_builders s) (hypotheses s)
           (map (\<lambda>i. (i, candidate_scores nl sc ! i)) sel)
           \<lparr>d_samples = [], d_tree_builders = [], d_sort_mask = [],
            d_sample_scores = [], d_terminated = terminated_hypotheses s\<rparr> = (err, d)"
      by (meson surj_pair)
    note eq = step'_draft[OF Some conjunct1[OF True] conjunct2[OF True] dr]
    show ?thesis
    proof (cases err)
      case (Some e)
      then show ?thesis using assms eq by simp
    next
      case None
      show ?thesis
      proof (cases "d_samples d = []")
        case T: True
        then show ?thesis using assms eq None dr \<open>scores s = Some sc\<close> True by auto
      next
        case F: False
        obtain e2 s2 where u: "update_state (?s1 d) (d_samples d)
                    (d_sort_mask d) (d_sample_scores d) (d_tree_builders d) = (e2, s2)"
          by (meson surj_pair)
        have e2: "e2 = None" using assms eq None F u by (cases e2) simp_all
        have r: "r = sort_mask s2" "s' = s2\<lparr>length_bs := length_bs s2 + 1\<rparr>"
          using assms eq None F u e2 by simp_all
        note fr = update_state_frame[OF u]
        show ?thesis using r fr F dr None \<open>scores s = Some sc\<close> True by auto
      qed
    qed
  qed
qed

section \<open>The sort mask\<close>

text \<open>The definitions a concrete call is evaluated with.\<close>

lemmas step_unfold =
  returned_def state_after_def tensor_after_def
  step_def ensure_initialized_def init_state_def step_check_def batch_size_def size1_def
  preprocess_log_probs_def make_row_mask_def mask_row_def log_softmax_row_def expf_def
  step'_def candidate_scores_def flatten_def add_scores_def num_candidates_def
  dispatch_def save_terminated_def update_state_def isnan_def Let_def new_BeamSearch_def

lemma step_returned_Inr:
  assumes "returned C s lp sel = Inr r"
  shows "\<exists>s0 s1 nl. ensure_initialized s lp = Inr s0 \<and> step_check s0 lp \<and>
    preprocess_log_probs C s0 lp = (Inr nl, s1, tensor_after C s lp sel) \<and>
    step' C s1 nl sel = (Inr r, state_after C s lp sel)"
proof -
  have "step C s lp sel = (Inr r, state_after C s lp sel, tensor_after C s lp sel)"
    using assms by (simp add: returned_def state_after_def tensor_after_def prod_eq_iff)
  then show ?thesis by (rule step_Inr)
qed

text \<open>
  C2 (sort-mask contract): whenever \<^verbatim>\<open>step\<close> returns a sort mask, the mask is as
  long as the new active beam, that length is at most \<open>beam_size\<close>, and every entry
  is a row number of the previous beam, below the previous batch size. The positions
  \<open>sorted_inds\<close> are what \<^verbatim>\<open>torch.topk\<close> returned: \<open>(1 + R) * beam_size\<close>
  positions of a tensor of \<open>batch_size * vocab_size\<close> candidates.
\<close>

theorem C2_sort_mask_contract:
  assumes "returned C s lp sel = Inr (Some m)"
    and "is_topk flat (num_candidates C s) sel"
    and "length flat = batch_size s * vocab_size s"
  shows "length m = batch_size (state_after C s lp sel) \<and>
         batch_size (state_after C s lp sel) \<le> beam_size s \<and>
         (\<forall>v\<in>set m. v < batch_size s)"
proof -
  let ?s' = "state_after C s lp sel"
  from step_returned_Inr[OF assms(1)] obtain s0 s1 nl where
    e: "ensure_initialized s lp = Inr s0" and
    p: "preprocess_log_probs C s0 lp = (Inr nl, s1, tensor_after C s lp sel)" and
    st: "step' C s1 nl sel = (Inr (Some m), ?s')" by blast
  have s1: "s1 = s0\<lparr>row_mask := row_mask s1\<rparr>" by (rule preprocess_frame[OF p])
  have bs: "beam_size s1 = beam_size s" "vocab_size s1 = vocab_size s"
    using ensure_initialized_frame[OF e] by (subst s1, simp)+
  from step'_Inr[OF st] obtain sc d where
    dr: "draft C (vocab_size s1) (beam_size s1) (tree_builders s1) (hypotheses s1)
        (map (\<lambda>i. (i, candidate_scores nl sc ! i)) sel)
        \<lparr>d_samples = [], d_tree_builders = [], d_sort_mask = [],
         d_sample_scores = [], d_terminated = terminated_hypotheses s1\<rparr> = (None, d)"
    and ab: "if d_samples d = [] then Some m = None \<and> ?s' = s1\<lparr>terminated_hypotheses := d_terminated d\<rparr>
     else Some m = Some (d_sort_mask d) \<and> scores ?s' = Some (d_sample_scores d)
        \<and> beam_size ?s' = beam_size s1 \<and> vocab_size ?s' = vocab_size s1
        \<and> terminated_hypotheses ?s' = d_terminated d \<and> tree_builders ?s' = d_tree_builders d"
    by blast
  from ab have m: "m = d_sort_mask d" and sc': "scores ?s' = Some (d_sample_scores d)"
    by (auto split: if_splits)
  from draft_lengths[OF dr] have len: "length (d_sort_mask d) = length (d_samples d)"
    "length (d_sample_scores d) = length (d_samples d)" by auto
  have bsz: "batch_size ?s' = length (d_samples d)" using sc' len by (simp add: batch_size_def)
  have le: "length (d_samples d) \<le> beam_size s"
  proof (cases "beam_size s = 0")
    case True
    then have "sel = []" using is_topkD(1)[OF assms(2)] by (simp add: num_candidates_def)
    with dr have "d_samples d = []" by auto
    then show ?thesis by simp
  next
    case False
    then show ?thesis using draft_le_beam[OF dr] bs by simp
  qed
  have rng: "\<forall>v\<in>set (d_sort_mask d). v < batch_size s"
  proof (rule draft_sort_mask_range[OF dr])
    show "\<forall>v\<in>set (d_sort_mask \<lparr>d_samples = [], d_tree_builders = [], d_sort_mask = [],
         d_sample_scores = [], d_terminated = terminated_hypotheses s1\<rparr>). v < batch_size s" by simp
    show "\<forall>c\<in>set (map (\<lambda>i. (i, candidate_scores nl sc ! i)) sel). fst c < batch_size s * vocab_size s1"
      using is_topkD(2)[OF assms(2)] assms(3) bs by auto
  qed
  show ?thesis using m len bsz le rng by simp
qed

text \<open>
  The contract at the first step of the scenario of the specification (vocabulary 4,
  beam size 2): the mask is \<open>[0, 0]\<close>.
\<close>

theorem C2_sort_mask_contract_witness:
  "returned free_builder (new_BeamSearch 4 2 ()) scenario_scores [2, 0, 1, 3] = Inr (Some [0, 0]) \<and>
   is_topk (candidate_scores (map log_softmax_row scenario_scores) [Fin 0])
     (num_candidates free_builder (new_BeamSearch 4 2 ())) [2, 0, 1, 3] \<and>
   length [0, 0 :: nat]
     = batch_size (state_after free_builder (new_BeamSearch 4 2 ()) scenario_scores [2, 0, 1, 3]) \<and>
   batch_size (state_after free_builder (new_BeamSearch 4 2 ()) scenario_scores [2, 0, 1, 3])
     \<le> beam_size (new_BeamSearch 4 2 ()) \<and>
   (0::nat) < batch_size (new_BeamSearch 4 2 ())"
proof -
  have h1: "returned free_builder (new_BeamSearch 4 2 ()) scenario_scores [2, 0, 1, 3]
              = Inr (Some [0, 0])"
    by (simp add: step_unfold free_builder_def scenario_scores_def upt_rec)
  have h2: "is_topk (candidate_scores (map log_softmax_row scenario_scores) [Fin 0])
     (num_candidates free_builder (new_BeamSearch 4 2 ())) [2, 0, 1, 3]"
    by (simp add: is_topk_def step_unfold free_builder_def scenario_scores_def)
  have h3: "length (candidate_scores (map log_softmax_row scenario_scores) [Fin 0])
     = batch_size (new_BeamSearch 4 2 ()) * vocab_size (new_BeamSearch 4 2 ())"
    by (simp add: step_unfold scenario_scores_def)
  from C2_sort_mask_contract[OF h1 h2 h3] h1 h2 show ?thesis by simp
qed

section \<open>Terminated hypotheses and NaN scores\<close>

lemma step'_terminated_grows:
  "\<exists>new. terminated_hypotheses (snd (step' C s nl sel)) = terminated_hypotheses s @ new \<and>
         (\<forall>h\<in>set new. is_terminated h \<and> \<not> isnan (score h))"
proof (cases "scores s")
  case None
  then show ?thesis by (simp add: step'_def)
next
  case (Some sc)
  show ?thesis
  proof (cases "length sc = length nl \<and> \<not> length (candidate_scores nl sc) < num_candidates C s")
    case False
    have "snd (step' C s nl sel) = s"
    proof (cases "length sc = length nl")
      case True
      with False Some show ?thesis by (simp add: step'_def Let_def)
    next
      case F: False
      with Some show ?thesis by (simp add: step'_def)
    qed
    then show ?thesis by simp
  next
    case True
    obtain err d where dr: "draft C (vocab_size s) (beam_size s) (tree_builders s) (hypotheses s)
           (map (\<lambda>i. (i, candidate_scores nl sc ! i)) sel)
           \<lparr>d_samples = [], d_tree_builders = [], d_sort_mask = [],
            d_sample_scores = [], d_terminated = terminated_hypotheses s\<rparr> = (err, d)"
      by (meson surj_pair)
    note eq = step'_draft[OF Some conjunct1[OF True] conjunct2[OF True] dr]
    obtain e2 s2 where u: "update_state (s\<lparr>terminated_hypotheses := d_terminated d\<rparr>) (d_samples d)
                    (d_sort_mask d) (d_sample_scores d) (d_tree_builders d) = (e2, s2)"
      by (meson surj_pair)
    have "terminated_hypotheses (snd (step' C s nl sel)) = d_terminated d"
      unfolding eq using update_state_frame(1)[OF u] u
      by (cases err; cases e2) simp_all
    moreover from draft_terminated_grows[OF dr]
    have "\<exists>new. d_terminated d = terminated_hypotheses s @ new \<and>
           (\<forall>h\<in>set new. is_terminated h \<and> \<not> isnan (score h))" by simp
    ultimately show ?thesis by simp
  qed
qed

lemma step_terminated_grows:
  "\<exists>new. terminated_hypotheses (state_after C s lp sel) = terminated_hypotheses s @ new \<and>
         (\<forall>h\<in>set new. is_terminated h \<and> \<not> isnan (score h))"
proof (cases "ensure_initialized s lp")
  case (Inl e)
  then show ?thesis by (simp add: state_after_def step_def)
next
  case (Inr s0)
  note fr = ensure_initialized_frame[OF Inr]
  show ?thesis
  proof (cases "step_check s0 lp")
    case False
    then show ?thesis using Inr fr(5) by (simp add: state_after_def step_def)
  next
    case True
    obtain pr s1 lp1 where p: "preprocess_log_probs C s0 lp = (pr, s1, lp1)"
      by (cases "preprocess_log_probs C s0 lp") auto
    have t1: "terminated_hypotheses s1 = terminated_hypotheses s"
      using fr(5) by (subst preprocess_frame[OF p]) simp
    show ?thesis
    proof (cases pr)
      case (Inl e)
      then show ?thesis using Inr True p t1 by (simp add: state_after_def step_def)
    next
      case (Inr nl)
      have "state_after C s lp sel = snd (step' C s1 nl sel)"
        using \<open>ensure_initialized s lp = Inr s0\<close> True p Inr
        by (simp add: state_after_def step_def split: prod.splits)
      then show ?thesis using step'_terminated_grows[of C s1 nl sel] t1 by simp
    qed
  qed
qed

lemma run_terminated_grows:
  "\<exists>new. terminated_hypotheses (run C s calls) = terminated_hypotheses s @ new \<and>
         (\<forall>h\<in>set new. is_terminated h \<and> \<not> isnan (score h))"
proof (induction calls arbitrary: s)
  case Nil
  then show ?case by simp
next
  case (Cons c calls)
  obtain lp sel where c: "c = (lp, sel)" by (cases c)
  let ?s1 = "state_after C s lp sel"
  from step_terminated_grows[of C s lp sel] obtain n1 where
    n1: "terminated_hypotheses ?s1 = terminated_hypotheses s @ n1"
        "\<forall>h\<in>set n1. is_terminated h \<and> \<not> isnan (score h)" by blast
  from Cons.IH[of ?s1] obtain n2 where
    n2: "terminated_hypotheses (run C ?s1 calls) = terminated_hypotheses ?s1 @ n2"
        "\<forall>h\<in>set n2. is_terminated h \<and> \<not> isnan (score h)" by blast
  have "terminated_hypotheses (run C s (c # calls)) = terminated_hypotheses s @ (n1 @ n2)"
    using c n1(1) n2(1) by (simp add: state_after_def)
  moreover have "\<forall>h\<in>set (n1 @ n2). is_terminated h \<and> \<not> isnan (score h)"
    using n1(2) n2(2) by auto
  ultimately show ?case by blast
qed


text \<open>
  One pass of the loop on a candidate whose advance reports \<^verbatim>\<open>END_LINE\<close>: the
  hypothesis is appended to the terminated list, the four lists of the continuing beam
  stay as they are, and the loop goes on with the remaining candidates.
\<close>

lemma draft_saves_terminated:
  assumes "\<not> isnan sc" and "0 < vocab" and "ind div vocab < length tbs"
    and "add_id C (tbs ! (ind div vocab)) (ind mod vocab) = (tb, END_LINE)"
    and "hyps = Some hs" and "ind div vocab < length hs"
    and "length (d_samples d) \<noteq> beam"
  shows "draft C vocab beam tbs hyps ((ind, sc) # rest) d =
           draft C vocab beam tbs hyps rest
             (d\<lparr>d_terminated := d_terminated d @
                  [\<lparr>ids = hs ! (ind div vocab) @ [ind mod vocab], tree_builder = tb,
                    score = sc, is_terminated = True\<rparr>]\<rparr>)"
proof -
  have d: "dispatch C vocab tbs hyps ind sc d =
             Inr (d\<lparr>d_terminated := d_terminated d @
                  [\<lparr>ids = hs ! (ind div vocab) @ [ind mod vocab], tree_builder = tb,
                    score = sc, is_terminated = True\<rparr>]\<rparr>)"
    using assms(2-6) by (simp add: dispatch_def save_terminated_def Let_def)
  show ?thesis using assms(1,7) d by simp
qed

text \<open>
  A loop that ends without an exception has saved exactly the candidates it took that
  complete their sequence, in the order taken, and has put exactly the others into the
  continuing beam.
\<close>

lemma draft_exact:
  assumes "draft C V B tbs (Some hs) cs d = (None, d')"
  shows "d_terminated d' = d_terminated d @
           map (terminated_of C V tbs hs)
             (filter (completes C V tbs) (dispatched C V B tbs cs (length (d_samples d)))) \<and>
         d_sort_mask d' = d_sort_mask d @
           map (\<lambda>c. fst c div V)
             (filter (\<lambda>c. \<not> completes C V tbs c) (dispatched C V B tbs cs (length (d_samples d)))) \<and>
         length (d_samples d') = length (d_samples d) +
           length (filter (\<lambda>c. \<not> completes C V tbs c) (dispatched C V B tbs cs (length (d_samples d))))"
  using assms
proof (induction cs arbitrary: d)
  case Nil
  then show ?case by simp
next
  case (Cons c cs)
  obtain ind sc where c: "c = (ind, sc)" by (cases c)
  show ?case
  proof (cases "isnan sc")
    case True
    with Cons.prems c show ?thesis by simp
  next
    case False
    show ?thesis
    proof (cases "dispatch C V tbs (Some hs) ind sc d")
      case (Inl e)
      with Cons.prems c False show ?thesis by simp
    next
      case (Inr d1)
      note dc = dispatch_cases[OF Inr]
      show ?thesis
      proof (cases "completes C V tbs c")
        case True
        then have d1: "d1 = d\<lparr>d_terminated := d_terminated d @ [terminated_of C V tbs hs c]\<rparr>"
          using dc c by (auto simp: completes_def terminated_of_def)
        show ?thesis
        proof (cases "length (d_samples d1) = B")
          case T: True
          then have "d' = d1" using Cons.prems c False Inr by simp
          then show ?thesis using d1 T True c False by simp
        next
          case F: False
          then have "draft C V B tbs (Some hs) cs d1 = (None, d')"
            using Cons.prems c False Inr by simp
          from Cons.IH[OF this] show ?thesis using d1 F True c False by simp
        qed
      next
        case Fc: False
        then have d1: "d1 = d\<lparr>d_samples := d_samples d @ [ind mod V],
                d_tree_builders := d_tree_builders d @ [fst (add_id C (tbs ! (ind div V)) (ind mod V))],
                d_sort_mask := d_sort_mask d @ [ind div V],
                d_sample_scores := d_sample_scores d @ [sc]\<rparr>"
          using dc c by (auto simp: completes_def)
        show ?thesis
        proof (cases "length (d_samples d1) = B")
          case T: True
          then have "d' = d1" using Cons.prems c False Inr by simp
          then show ?thesis using d1 T Fc c False by simp
        next
          case F: False
          then have "draft C V B tbs (Some hs) cs d1 = (None, d')"
            using Cons.prems c False Inr by simp
          from Cons.IH[OF this] show ?thesis using d1 F Fc c False by simp
        qed
      qed
    qed
  qed
qed

lemma preprocess_Inr:
  assumes "preprocess_log_probs C s0 lp = (Inr nl, s1, lp')"
  shows "nl = map log_softmax_row lp'"
  using assms
  by (auto simp: preprocess_log_probs_def split: option.splits prod.splits)

text \<open>
  C4 (terminated hypotheses): in every \<^verbatim>\<open>step\<close> call that returns, the decoder's
  terminated collection afterwards is the collection of before the call followed by
  one terminated hypothesis for each dispatched candidate whose advance reports
  completion, in dispatch order: the parent's tokens followed by the chosen token, the
  advanced builder, the candidate's score and \<open>is_terminated\<close> true (\<open>terminated_of\<close>).
  These candidates take no beam slot: the sort mask returned lists the parents of
  exactly the other dispatched candidates, and \<^verbatim>\<open>None\<close> is returned when there
  are none. Over any sequence of \<^verbatim>\<open>step\<close> calls the terminated collection only
  grows at its end, by terminated hypotheses: nothing is removed or reordered. Here
  \<open>s0\<close> is the decoder after the deferred initialisation (the decoder itself once
  initialised), \<open>sc\<close> its scores and \<open>hs\<close> its token histories.
\<close>

theorem C4_terminated_saved_and_kept:
  assumes "ensure_initialized s lp = Inr s0" and "scores s0 = Some sc"
    and "hypotheses s0 = Some hs" and "returned C s lp sel = Inr r"
  shows "terminated_hypotheses (state_after C s lp sel) =
           terminated_hypotheses s @
             map (terminated_of C (vocab_size s) (tree_builders s) hs)
               (filter (completes C (vocab_size s) (tree_builders s))
                  (dispatched C (vocab_size s) (beam_size s) (tree_builders s)
                     (step_candidates C s sc lp sel) 0)) \<and>
         r = (if filter (\<lambda>c. \<not> completes C (vocab_size s) (tree_builders s) c)
                   (dispatched C (vocab_size s) (beam_size s) (tree_builders s)
                      (step_candidates C s sc lp sel) 0) = []
              then None
              else Some (map (\<lambda>c. fst c div vocab_size s)
                     (filter (\<lambda>c. \<not> completes C (vocab_size s) (tree_builders s) c)
                        (dispatched C (vocab_size s) (beam_size s) (tree_builders s)
                           (step_candidates C s sc lp sel) 0)))) \<and>
         (\<exists>new. terminated_hypotheses (run C s2 calls) = terminated_hypotheses s2 @ new \<and>
                (\<forall>h\<in>set new. is_terminated h))"
proof -
  let ?s' = "state_after C s lp sel"
  let ?D = "dispatched C (vocab_size s) (beam_size s) (tree_builders s)
              (step_candidates C s sc lp sel) 0"
  from step_returned_Inr[OF assms(4)] assms(1) obtain s1 nl where
    p: "preprocess_log_probs C s0 lp = (Inr nl, s1, tensor_after C s lp sel)" and
    st: "step' C s1 nl sel = (Inr r, ?s')" by auto
  note fr = ensure_initialized_frame[OF assms(1)]
  have s1: "s1 = s0\<lparr>row_mask := row_mask s1\<rparr>" by (rule preprocess_frame[OF p])
  have f1: "scores s1 = Some sc" "hypotheses s1 = Some hs" "tree_builders s1 = tree_builders s"
    "vocab_size s1 = vocab_size s" "beam_size s1 = beam_size s"
    "terminated_hypotheses s1 = terminated_hypotheses s"
    using assms(2,3) fr(2-5) by (subst s1, simp)+
  have nl: "nl = map log_softmax_row (tensor_after C s lp sel)" by (rule preprocess_Inr[OF p])
  from step'_Inr[OF st] f1(1) obtain d where
    dr: "draft C (vocab_size s1) (beam_size s1) (tree_builders s1) (hypotheses s1)
        (map (\<lambda>i. (i, candidate_scores nl sc ! i)) sel)
        \<lparr>d_samples = [], d_tree_builders = [], d_sort_mask = [],
         d_sample_scores = [], d_terminated = terminated_hypotheses s1\<rparr> = (None, d)"
    and ab: "if d_samples d = [] then r = None \<and> ?s' = s1\<lparr>terminated_hypotheses := d_terminated d\<rparr>
     else r = Some (d_sort_mask d) \<and> scores ?s' = Some (d_sample_scores d)
        \<and> beam_size ?s' = beam_size s1 \<and> vocab_size ?s' = vocab_size s1
        \<and> terminated_hypotheses ?s' = d_terminated d \<and> tree_builders ?s' = d_tree_builders d"
    by auto
  have dr': "draft C (vocab_size s) (beam_size s) (tree_builders s) (Some hs)
        (step_candidates C s sc lp sel)
        \<lparr>d_samples = [], d_tree_builders = [], d_sort_mask = [],
         d_sample_scores = [], d_terminated = terminated_hypotheses s\<rparr> = (None, d)"
    using dr f1 nl by (simp add: step_candidates_def)
  from draft_exact[OF dr'] have
    t: "d_terminated d = terminated_hypotheses s @
          map (terminated_of C (vocab_size s) (tree_builders s) hs)
            (filter (completes C (vocab_size s) (tree_builders s)) ?D)" and
    m: "d_sort_mask d = map (\<lambda>c. fst c div vocab_size s)
          (filter (\<lambda>c. \<not> completes C (vocab_size s) (tree_builders s) c) ?D)" and
    l: "length (d_samples d)
          = length (filter (\<lambda>c. \<not> completes C (vocab_size s) (tree_builders s) c) ?D)"
    by simp_all
  have t': "terminated_hypotheses ?s' = d_terminated d"
  proof (cases "d_samples d = []")
    case True
    with ab have "?s' = s1\<lparr>terminated_hypotheses := d_terminated d\<rparr>" by simp
    then show ?thesis by simp
  next
    case False
    with ab show ?thesis by simp
  qed
  have e: "(d_samples d = [])
            = (filter (\<lambda>c. \<not> completes C (vocab_size s) (tree_builders s) c) ?D = [])"
    using l by (metis length_0_conv)
  have r: "r = (if filter (\<lambda>c. \<not> completes C (vocab_size s) (tree_builders s) c) ?D = []
              then None
              else Some (map (\<lambda>c. fst c div vocab_size s)
                     (filter (\<lambda>c. \<not> completes C (vocab_size s) (tree_builders s) c) ?D)))"
  proof (cases "d_samples d = []")
    case True
    with ab e show ?thesis by simp
  next
    case False
    with ab e m show ?thesis by simp
  qed
  have g: "\<exists>new. terminated_hypotheses (run C s2 calls) = terminated_hypotheses s2 @ new \<and>
                (\<forall>h\<in>set new. is_terminated h)"
    using run_terminated_grows[of C s2 calls] by blast
  show ?thesis using t t' r g by simp
qed

text \<open>
  The first step of the scenario with the positions in the order \<open>[3, 2, 0, 1]\<close>:
  token 3 completes the line for \<open>free_builder\<close> and is saved as the hypothesis
  \<open>[3]\<close>; the tokens 2 and 0 fill the beam, both with parent row 0.
\<close>

theorem C4_terminated_saved_and_kept_witness:
  "ensure_initialized (new_BeamSearch 4 2 ()) scenario_scores
     = Inr ((new_BeamSearch 4 2 ())\<lparr>scores := Some [Fin 0], hypotheses := Some [[]],
             row_mask := Some [False, False, False, False], is_initialized := True\<rparr>) \<and>
   returned free_builder (new_BeamSearch 4 2 ()) scenario_scores [3, 2, 0, 1] = Inr (Some [0, 0]) \<and>
   map fst (dispatched free_builder 4 2 [()]
              (step_candidates free_builder (new_BeamSearch 4 2 ()) [Fin 0] scenario_scores
                 [3, 2, 0, 1]) 0) = [3, 2, 0] \<and>
   map ids (terminated_hypotheses
              (state_after free_builder (new_BeamSearch 4 2 ()) scenario_scores [3, 2, 0, 1]))
     = [[3]] \<and>
   map is_terminated (terminated_hypotheses
              (state_after free_builder (new_BeamSearch 4 2 ()) scenario_scores [3, 2, 0, 1]))
     = [True]"
proof -
  let ?b = "new_BeamSearch 4 2 ()"
  let ?t = "?b\<lparr>scores := Some [Fin 0], hypotheses := Some [[]],
             row_mask := Some [False, False, False, False], is_initialized := True\<rparr>"
  have h1: "ensure_initialized ?b scenario_scores = Inr ?t"
    by (simp add: ensure_initialized_def init_state_def new_BeamSearch_def size1_def
          scenario_scores_def numeral_eq_Suc)
  have h2: "scores ?t = Some [Fin 0]" by simp
  have h3: "hypotheses ?t = Some [[]]" by simp
  have h4: "returned free_builder ?b scenario_scores [3, 2, 0, 1] = Inr (Some [0, 0])"
    by (simp add: step_unfold free_builder_def scenario_scores_def upt_rec)
  have d: "map fst (dispatched free_builder 4 2 [()]
              (step_candidates free_builder ?b [Fin 0] scenario_scores [3, 2, 0, 1]) 0) = [3, 2, 0]"
    by (simp add: step_candidates_def completes_def step_unfold free_builder_def
          scenario_scores_def upt_rec)
  from C4_terminated_saved_and_kept[OF h1 h2 h3 h4]
  have t: "terminated_hypotheses (state_after free_builder ?b scenario_scores [3, 2, 0, 1]) =
           terminated_hypotheses ?b @
             map (terminated_of free_builder (vocab_size ?b) (tree_builders ?b) [[]])
               (filter (completes free_builder (vocab_size ?b) (tree_builders ?b))
                  (dispatched free_builder (vocab_size ?b) (beam_size ?b) (tree_builders ?b)
                     (step_candidates free_builder ?b [Fin 0] scenario_scores [3, 2, 0, 1]) 0))"
    by blast
  have i: "map ids (terminated_hypotheses
              (state_after free_builder ?b scenario_scores [3, 2, 0, 1])) = [[3]]"
    unfolding t
    by (simp add: step_candidates_def completes_def terminated_of_def step_unfold
          free_builder_def scenario_scores_def upt_rec)
  have j: "map is_terminated (terminated_hypotheses
              (state_after free_builder ?b scenario_scores [3, 2, 0, 1])) = [True]"
    unfolding t
    by (simp add: step_candidates_def completes_def terminated_of_def step_unfold
          free_builder_def scenario_scores_def upt_rec)
  show ?thesis using h1 h4 d i j by simp
qed

text \<open>
  C7 (NaN handling): a candidate with a NaN score ends the loop of \<^verbatim>\<open>_step\<close>
  at once, without an error: it is not advanced, the lists and the terminated
  hypotheses stay as they were, and no later candidate is looked at. Hence no
  hypothesis a step appends to the terminated list and no score of a committed beam is
  NaN.
\<close>

theorem C7_nan_ends_scan:
  assumes "isnan sc"
  shows "draft C vocab beam tbs hyps ((ind, sc) # rest) d = (None, d) \<and>
         (\<exists>new. terminated_hypotheses (state_after C s lp sel) = terminated_hypotheses s @ new \<and>
                (\<forall>h\<in>set new. \<not> isnan (score h))) \<and>
         (\<forall>m. returned C s lp sel = Inr (Some m) \<longrightarrow>
              (\<exists>xs. scores (state_after C s lp sel) = Some xs \<and> (\<forall>x\<in>set xs. \<not> isnan x)))"
proof -
  have a: "draft C vocab beam tbs hyps ((ind, sc) # rest) d = (None, d)"
    using assms by simp
  have b: "\<exists>new. terminated_hypotheses (state_after C s lp sel) = terminated_hypotheses s @ new \<and>
                (\<forall>h\<in>set new. \<not> isnan (score h))"
    using step_terminated_grows[of C s lp sel] by blast
  have c: "\<exists>xs. scores (state_after C s lp sel) = Some xs \<and> (\<forall>x\<in>set xs. \<not> isnan x)"
    if r: "returned C s lp sel = Inr (Some m)" for m
  proof -
    let ?s' = "state_after C s lp sel"
    from step_returned_Inr[OF r] obtain s1 nl where
      st: "step' C s1 nl sel = (Inr (Some m), ?s')" by blast
    from step'_Inr[OF st] obtain sc0 d0 where
      dr: "draft C (vocab_size s1) (beam_size s1) (tree_builders s1) (hypotheses s1)
        (map (\<lambda>i. (i, candidate_scores nl sc0 ! i)) sel)
        \<lparr>d_samples = [], d_tree_builders = [], d_sort_mask = [],
         d_sample_scores = [], d_terminated = terminated_hypotheses s1\<rparr> = (None, d0)"
      and ab: "if d_samples d0 = [] then Some m = None \<and> ?s' = s1\<lparr>terminated_hypotheses := d_terminated d0\<rparr>
       else Some m = Some (d_sort_mask d0) \<and> scores ?s' = Some (d_sample_scores d0)
        \<and> beam_size ?s' = beam_size s1 \<and> vocab_size ?s' = vocab_size s1
        \<and> terminated_hypotheses ?s' = d_terminated d0 \<and> tree_builders ?s' = d_tree_builders d0"
      by blast
    from ab have sc': "scores ?s' = Some (d_sample_scores d0)" by (auto split: if_splits)
    have "\<forall>x\<in>set (d_sample_scores d0). \<not> isnan x"
      by (rule draft_scores_not_nan[OF dr]) simp
    with sc' show ?thesis by simp
  qed
  show ?thesis using a b c by blast
qed

text \<open>
  A NaN candidate in front of a finite one: nothing is drafted. And a row holding a NaN
  renormalises to NaN throughout, so the step ends without a continuation.
\<close>

theorem C7_nan_ends_scan_witness:
  "draft free_builder 4 2 [()] (Some [[]]) [(1, NaN), (2, Fin 0)]
      \<lparr>d_samples = [], d_tree_builders = [], d_sort_mask = [], d_sample_scores = [],
       d_terminated = []\<rparr>
     = (None, \<lparr>d_samples = [], d_tree_builders = [], d_sort_mask = [], d_sample_scores = [],
               d_terminated = []\<rparr>) \<and>
   returned free_builder (new_BeamSearch 4 2 ()) [[NaN, Fin 0, Fin 0, Fin 0]] [0, 1, 2, 3] = Inr None"
proof -
  have "isnan NaN" by (simp add: isnan_def)
  from C7_nan_ends_scan[OF this, of free_builder 4 2 "[()]" "Some [[]]" 1 "[(2, Fin 0)]"]
  have "draft free_builder 4 2 [()] (Some [[]]) [(1, NaN), (2, Fin 0)]
      \<lparr>d_samples = [], d_tree_builders = [], d_sort_mask = [], d_sample_scores = [],
       d_terminated = []\<rparr>
     = (None, \<lparr>d_samples = [], d_tree_builders = [], d_sort_mask = [], d_sample_scores = [],
               d_terminated = []\<rparr>)" by blast
  moreover have "returned free_builder (new_BeamSearch 4 2 ()) [[NaN, Fin 0, Fin 0, Fin 0]] [0, 1, 2, 3] = Inr None"
    by (simp add: step_unfold free_builder_def upt_rec)
  ultimately show ?thesis by simp
qed

section \<open>Beam collapse and the shape check\<close>

lemma ensure_initialized_first:
  assumes "ensure_initialized s lp = Inr s0" and "\<not> is_initialized s"
  shows "scores s0 = Some [Fin 0]" and "hypotheses s0 = Some [[]]" and "is_initialized s0"
  using assms
  by (auto simp: ensure_initialized_def init_state_def split: if_splits)

lemma step_check_cong:
  assumes "batch_size s0 = batch_size s" and "vocab_size s0 = vocab_size s"
  shows "step_check s0 lp = step_check s lp"
  using assms by (simp add: step_check_def)

text \<open>
  C5, as stated, fails in its second half. After a first step that keeps the tokens 2
  and 0, a second step in which every selected candidate completes its line produces no
  continuing hypothesis and returns \<^verbatim>\<open>None\<close>; the positions \<open>[2, 0, 6, 4]\<close>
  are a top-4 of its candidate scores. The decoder still holds the two hypotheses
  \<open>[2]\<close> and \<open>[0]\<close>, and \<^verbatim>\<open>current_hypotheses\<close> still returns them: the
  active set is not empty.
\<close>

theorem C5_collapse_counterexample:
  "returned two_tokens
     (state_after two_tokens (new_BeamSearch 4 2 0) scenario_scores [2, 0, 1, 3])
     second_scores [2, 0, 6, 4] = Inr None \<and>
   is_topk
     (candidate_scores (map log_softmax_row second_scores)
        (the (scores (state_after two_tokens (new_BeamSearch 4 2 0) scenario_scores [2, 0, 1, 3]))))
     4 [2, 0, 6, 4] \<and>
   hypotheses
     (state_after two_tokens
        (state_after two_tokens (new_BeamSearch 4 2 0) scenario_scores [2, 0, 1, 3])
        second_scores [2, 0, 6, 4]) = Some [[2], [0]] \<and>
   (case current_hypotheses
      (state_after two_tokens
        (state_after two_tokens (new_BeamSearch 4 2 0) scenario_scores [2, 0, 1, 3])
        second_scores [2, 0, 6, 4]) of
      Inl e \<Rightarrow> [] | Inr hs \<Rightarrow> map ids hs) = [[2], [0]]"
  by (simp add: step_unfold two_tokens_def scenario_scores_def second_scores_def upt_rec
        is_topk_def current_hypotheses_def)

text \<open>
  C5, amended: a \<^verbatim>\<open>step\<close> call that produces no continuing hypothesis returns
  \<^verbatim>\<open>None\<close>, the no-continuation signal, and commits nothing: batch size, tree
  builders, sort mask and length are those of before the call, and so are the scores,
  the token histories and \<^verbatim>\<open>current_hypotheses\<close> of an initialised decoder (on a
  first call they are what the deferred initialisation set: one empty hypothesis with
  score 0). The active set is left as it was, not emptied.
\<close>

theorem C5_collapse_keeps_beam:
  assumes "returned C s lp sel = Inr None"
  shows "batch_size (state_after C s lp sel) = batch_size s \<and>
         tree_builders (state_after C s lp sel) = tree_builders s \<and>
         sort_mask (state_after C s lp sel) = sort_mask s \<and>
         length_bs (state_after C s lp sel) = length_bs s \<and>
         (is_initialized s \<longrightarrow>
            scores (state_after C s lp sel) = scores s \<and>
            hypotheses (state_after C s lp sel) = hypotheses s \<and>
            current_hypotheses (state_after C s lp sel) = current_hypotheses s) \<and>
         (\<not> is_initialized s \<longrightarrow>
            scores (state_after C s lp sel) = Some [Fin 0] \<and>
            hypotheses (state_after C s lp sel) = Some [[]])"
proof -
  let ?s' = "state_after C s lp sel"
  from step_returned_Inr[OF assms] obtain s0 s1 nl where
    e: "ensure_initialized s lp = Inr s0" and
    p: "preprocess_log_probs C s0 lp = (Inr nl, s1, tensor_after C s lp sel)" and
    st: "step' C s1 nl sel = (Inr None, ?s')" by blast
  have s1: "s1 = s0\<lparr>row_mask := row_mask s1\<rparr>" by (rule preprocess_frame[OF p])
  from step'_Inr[OF st]
  have "\<exists>t. ?s' = s1\<lparr>terminated_hypotheses := t\<rparr>"
    by (elim exE conjE) (simp split: if_splits, rule exI, rule refl)
  then obtain t where "?s' = s1\<lparr>terminated_hypotheses := t\<rparr>" by blast
  then have s': "?s' = s0\<lparr>row_mask := row_mask s1, terminated_hypotheses := t\<rparr>"
    using s1 by simp
  have f: "scores ?s' = scores s0" "hypotheses ?s' = hypotheses s0"
    "tree_builders ?s' = tree_builders s0" "sort_mask ?s' = sort_mask s0"
    "length_bs ?s' = length_bs s0"
    by (subst s', simp)+
  have b: "batch_size ?s' = batch_size s0" using f(1) by (simp add: batch_size_def)
  have c: "current_hypotheses ?s' = current_hypotheses s0"
    unfolding current_hypotheses_def f(1-3) by (rule refl)
  note fr = ensure_initialized_frame[OF e]
  have i: "is_initialized s \<Longrightarrow> s0 = s" by (rule fr(9))
  note u = ensure_initialized_first[OF e]
  show ?thesis using f b c fr(1,4,6,7) i u(1,2) by auto
qed

text \<open>
  A first step in which every candidate completes its line: \<^verbatim>\<open>None\<close> is
  returned and the decoder keeps its one initial row.
\<close>

theorem C5_collapse_keeps_beam_witness:
  "returned closing (new_BeamSearch 4 2 ()) scenario_scores [2, 0, 1, 3] = Inr None \<and>
   batch_size (state_after closing (new_BeamSearch 4 2 ()) scenario_scores [2, 0, 1, 3]) = 1 \<and>
   tree_builders (state_after closing (new_BeamSearch 4 2 ()) scenario_scores [2, 0, 1, 3]) = [()] \<and>
   hypotheses (state_after closing (new_BeamSearch 4 2 ()) scenario_scores [2, 0, 1, 3]) = Some [[]]"
proof -
  have h: "returned closing (new_BeamSearch 4 2 ()) scenario_scores [2, 0, 1, 3] = Inr None"
    by (simp add: step_unfold closing_def scenario_scores_def upt_rec)
  from C5_collapse_keeps_beam[OF h] h show ?thesis
    by (simp add: new_BeamSearch_def batch_size_def)
qed

text \<open>
  C8, as stated, fails on a first call. A decoder for four tokens that is given a matrix
  with three columns rejects it with the assertion of \<^verbatim>\<open>_step_check\<close>, but
  \<^verbatim>\<open>step\<close> ran \<^verbatim>\<open>_init_state\<close> and set the flag before the check: the
  scores, the token histories and the flag have changed.
\<close>

theorem C8_first_call_counterexample:
  "\<not> step_check (new_BeamSearch 4 2 ()) narrow_scores \<and>
   returned free_builder (new_BeamSearch 4 2 ()) narrow_scores [] = Inl AssertionError \<and>
   scores (new_BeamSearch 4 2 ()) = None \<and>
   scores (state_after free_builder (new_BeamSearch 4 2 ()) narrow_scores []) = Some [Fin 0] \<and>
   hypotheses (state_after free_builder (new_BeamSearch 4 2 ()) narrow_scores []) = Some [[]] \<and>
   is_initialized (state_after free_builder (new_BeamSearch 4 2 ()) narrow_scores []) \<and>
   state_after free_builder (new_BeamSearch 4 2 ()) narrow_scores [] \<noteq> new_BeamSearch 4 2 ()"
  by (simp add: step_unfold narrow_scores_def)

text \<open>
  C8, amended: a \<^verbatim>\<open>step\<close> call whose matrix does not have \<open>batch_size\<close> rows
  of \<open>vocab_size\<close> entries fails with an assertion error before any masking,
  selection or commit: the caller's matrix is untouched, an initialised decoder is
  left exactly as it was, and on a first call the terminated hypotheses, the tree
  builders, the batch size, the sort mask, the samples and the length are unchanged
  (the deferred initialisation has already run there).
\<close>

theorem C8_shape_mismatch_rejected:
  assumes "\<not> step_check s lp"
  shows "returned C s lp sel = Inl AssertionError \<and>
         tensor_after C s lp sel = lp \<and>
         (is_initialized s \<longrightarrow> state_after C s lp sel = s) \<and>
         terminated_hypotheses (state_after C s lp sel) = terminated_hypotheses s \<and>
         tree_builders (state_after C s lp sel) = tree_builders s \<and>
         batch_size (state_after C s lp sel) = batch_size s \<and>
         sort_mask (state_after C s lp sel) = sort_mask s \<and>
         samples (state_after C s lp sel) = samples s \<and>
         length_bs (state_after C s lp sel) = length_bs s"
proof (cases "ensure_initialized s lp")
  case (Inl e)
  have "e = AssertionError"
    using Inl by (auto simp: ensure_initialized_def init_state_def split: if_splits)
  moreover have "\<not> is_initialized s"
    using Inl by (auto simp: ensure_initialized_def split: if_splits)
  ultimately show ?thesis
    using Inl by (simp add: returned_def state_after_def tensor_after_def step_def)
next
  case (Inr s0)
  note fr = ensure_initialized_frame[OF Inr]
  have "\<not> step_check s0 lp" using assms step_check_cong[OF fr(1,2)] by simp
  then have "step C s lp sel = (Inl AssertionError, s0, lp)"
    using Inr by (simp add: step_def)
  then show ?thesis using fr by (simp add: returned_def state_after_def tensor_after_def)
qed

text \<open>
  After the first step of the scenario the beam has two rows; the one-row matrix is
  rejected and the decoder and the matrix are as before.
\<close>

theorem C8_shape_mismatch_rejected_witness:
  "\<not> step_check (state_after free_builder (new_BeamSearch 4 2 ()) scenario_scores [2, 0, 1, 3])
        scenario_scores \<and>
   returned free_builder
       (state_after free_builder (new_BeamSearch 4 2 ()) scenario_scores [2, 0, 1, 3])
       scenario_scores [2, 0, 1, 3] = Inl AssertionError \<and>
   state_after free_builder
       (state_after free_builder (new_BeamSearch 4 2 ()) scenario_scores [2, 0, 1, 3])
       scenario_scores [2, 0, 1, 3]
     = state_after free_builder (new_BeamSearch 4 2 ()) scenario_scores [2, 0, 1, 3] \<and>
   tensor_after free_builder
       (state_after free_builder (new_BeamSearch 4 2 ()) scenario_scores [2, 0, 1, 3])
       scenario_scores [2, 0, 1, 3] = scenario_scores"
proof -
  let ?s1 = "state_after free_builder (new_BeamSearch 4 2 ()) scenario_scores [2, 0, 1, 3]"
  have h: "\<not> step_check ?s1 scenario_scores"
    by (simp add: step_unfold free_builder_def scenario_scores_def upt_rec)
  have i: "is_initialized ?s1"
    by (simp add: step_unfold free_builder_def scenario_scores_def upt_rec)
  from C8_shape_mismatch_rejected[OF h, of free_builder "[2, 0, 1, 3]"] h i
  show ?thesis by simp
qed

section \<open>Masking\<close>

lemma mask_row_make:
  assumes "length row = n" and "make_row_mask n legal = Inr rm"
  shows "mask_row rm row = mask_illegal legal row" and "length rm = n"
proof -
  have rm: "rm = map (\<lambda>j. j \<notin> set legal) [0..<n]"
    using assms(2) by (simp add: make_row_mask_def split: if_splits)
  show "length rm = n" using rm by simp
  show "mask_row rm row = mask_illegal legal row"
    unfolding mask_row_def mask_illegal_def rm
    using assms(1) by (intro nth_equalityI) simp_all
qed

lemma make_row_mask_ok:
  assumes "\<forall>i\<in>set legal. i < n"
  shows "\<exists>rm. make_row_mask n legal = Inr rm"
  using assms by (auto simp: make_row_mask_def list_ex_iff)

lemma length_mask_illegal: "length (mask_illegal legal row) = length row"
  by (simp add: mask_illegal_def)

lemma mask_rows_ok:
  assumes "\<forall>tb\<in>set tbs. \<forall>i\<in>set (get_next_possible_ids C tb). i < n"
    and "length rm = n" and "k + length tbs \<le> length lp"
    and "\<forall>row\<in>set lp. length row = n"
  shows "\<exists>rm'. length rm' = n \<and>
           mask_rows C k tbs rm lp =
             (None, rm',
              map (\<lambda>i. if k \<le> i \<and> i < k + length tbs
                         then mask_illegal (get_next_possible_ids C (tbs ! (i - k))) (lp ! i)
                         else lp ! i) [0..<length lp])"
  using assms
proof (induction tbs arbitrary: k rm lp)
  case Nil
  have "lp = map (\<lambda>i. if k \<le> i \<and> i < k + length ([]::'a list)
                         then mask_illegal (get_next_possible_ids C ([] ! (i - k))) (lp ! i)
                         else lp ! i) [0..<length lp]"
    by (rule nth_equalityI) auto
  with Nil show ?case by simp
next
  case (Cons tb tbs)
  let ?legal = "get_next_possible_ids C tb"
  from Cons.prems(1) have "\<forall>i\<in>set ?legal. i < n" by simp
  from make_row_mask_ok[OF this] obtain rm1 where m: "make_row_mask n ?legal = Inr rm1" by blast
  have k: "k < length lp" using Cons.prems(3) by simp
  then have lk: "length (lp ! k) = n" using Cons.prems(4) by simp
  note mr = mask_row_make[OF lk m]
  let ?lp2 = "lp[k := mask_row rm1 (lp ! k)]"
  have rows2: "\<forall>row\<in>set ?lp2. length row = n"
  proof
    fix row assume "row \<in> set ?lp2"
    then have "row \<in> insert (mask_row rm1 (lp ! k)) (set lp)"
      using set_update_subset_insert by fastforce
    then show "length row = n"
      using Cons.prems(4) mr(1) lk by (auto simp: length_mask_illegal)
  qed
  have len2: "Suc k + length tbs \<le> length ?lp2" using Cons.prems(3) by simp
  have tbs: "\<forall>tb\<in>set tbs. \<forall>i\<in>set (get_next_possible_ids C tb). i < n"
    using Cons.prems(1) by simp
  from Cons.IH[OF tbs mr(2) len2 rows2] obtain rm' where
    r: "length rm' = n"
       "mask_rows C (Suc k) tbs rm1 ?lp2 =
          (None, rm',
           map (\<lambda>i. if Suc k \<le> i \<and> i < Suc k + length tbs
                      then mask_illegal (get_next_possible_ids C (tbs ! (i - Suc k))) (?lp2 ! i)
                      else ?lp2 ! i) [0..<length ?lp2])" by blast
  have step: "mask_rows C k (tb # tbs) rm lp = mask_rows C (Suc k) tbs rm1 ?lp2"
    using m k lk mr(2) Cons.prems(2) by simp
  have eq: "map (\<lambda>i. if Suc k \<le> i \<and> i < Suc k + length tbs
                      then mask_illegal (get_next_possible_ids C (tbs ! (i - Suc k))) (?lp2 ! i)
                      else ?lp2 ! i) [0..<length ?lp2]
          = map (\<lambda>i. if k \<le> i \<and> i < k + length (tb # tbs)
                         then mask_illegal (get_next_possible_ids C ((tb # tbs) ! (i - k))) (lp ! i)
                         else lp ! i) [0..<length lp]"
  proof (rule nth_equalityI)
    show "length (map (\<lambda>i. if Suc k \<le> i \<and> i < Suc k + length tbs
                      then mask_illegal (get_next_possible_ids C (tbs ! (i - Suc k))) (?lp2 ! i)
                      else ?lp2 ! i) [0..<length ?lp2])
          = length (map (\<lambda>i. if k \<le> i \<and> i < k + length (tb # tbs)
                         then mask_illegal (get_next_possible_ids C ((tb # tbs) ! (i - k))) (lp ! i)
                         else lp ! i) [0..<length lp])" by simp
  next
    fix i assume "i < length (map (\<lambda>i. if Suc k \<le> i \<and> i < Suc k + length tbs
                      then mask_illegal (get_next_possible_ids C (tbs ! (i - Suc k))) (?lp2 ! i)
                      else ?lp2 ! i) [0..<length ?lp2])"
    then have i: "i < length lp" by simp
    consider "i < k" | "i = k" | "k < i" by linarith
    then show "map (\<lambda>i. if Suc k \<le> i \<and> i < Suc k + length tbs
                      then mask_illegal (get_next_possible_ids C (tbs ! (i - Suc k))) (?lp2 ! i)
                      else ?lp2 ! i) [0..<length ?lp2] ! i
          = map (\<lambda>i. if k \<le> i \<and> i < k + length (tb # tbs)
                         then mask_illegal (get_next_possible_ids C ((tb # tbs) ! (i - k))) (lp ! i)
                         else lp ! i) [0..<length lp] ! i"
    proof cases
      case 1
      then show ?thesis using i by simp
    next
      case 2
      then show ?thesis using i mr(1) by simp
    next
      case 3
      then obtain j where j: "i - k = Suc j" "i - Suc k = j" by (cases "i - k") auto
      from 3 show ?thesis using i j by simp
    qed
  qed
  show ?case using r step eq by auto
qed


lemma ready_new: "ready (new_BeamSearch vocab beam tb)"
  by (simp add: ready_def new_BeamSearch_def batch_size_def)

lemma ready_ensure_initialized:
  assumes "ready s" and "step_check s lp"
  shows "\<exists>s0 rm. ensure_initialized s lp = Inr s0 \<and> row_mask s0 = Some rm \<and>
           length rm = vocab_size s \<and> tree_builders s0 = tree_builders s \<and>
           batch_size s0 = batch_size s \<and> vocab_size s0 = vocab_size s"
proof (cases "is_initialized s")
  case True
  then show ?thesis using assms(1)
    by (auto simp: ready_def ensure_initialized_def split: option.splits)
next
  case False
  then have n: "scores s = None" "hypotheses s = None" using assms(1) by (simp_all add: ready_def)
  then have "batch_size s = 1" by (simp add: batch_size_def)
  then have "size1 lp = vocab_size s"
    using assms(2) by (cases lp) (simp_all add: step_check_def size1_def)
  then show ?thesis using False n
    by (simp add: ensure_initialized_def init_state_def batch_size_def)
qed

lemma map2_mask_nth:
  assumes "length tbs = length lp"
  shows "map (\<lambda>i. if 0 \<le> i \<and> i < 0 + length tbs
                     then mask_illegal (get_next_possible_ids C (tbs ! (i - 0))) (lp ! i)
                     else lp ! i) [0..<length lp]
         = map2 (\<lambda>tb row. mask_illegal (get_next_possible_ids C tb) row) tbs lp"
  using assms by (intro nth_equalityI) simp_all

lemma tensor_after_masked:
  assumes "step_check s lp" and "ready s"
    and "\<forall>tb\<in>set (tree_builders s). \<forall>i\<in>set (get_next_possible_ids C tb). i < vocab_size s"
  shows "tensor_after C s lp sel
           = map2 (\<lambda>tb row. mask_illegal (get_next_possible_ids C tb) row) (tree_builders s) lp"
proof -
  let ?masked = "map2 (\<lambda>tb row. mask_illegal (get_next_possible_ids C tb) row) (tree_builders s) lp"
  from ready_ensure_initialized[OF assms(2,1)] obtain s0 rm where
    e: "ensure_initialized s lp = Inr s0" and rm: "row_mask s0 = Some rm" "length rm = vocab_size s"
    and f: "tree_builders s0 = tree_builders s" "batch_size s0 = batch_size s"
      "vocab_size s0 = vocab_size s" by blast
  have chk: "step_check s0 lp" using assms(1) f by (simp add: step_check_def)
  have len: "length (tree_builders s) = length lp"
    using assms(1,2) by (simp add: ready_def step_check_def)
  have rows: "\<forall>row\<in>set lp. length row = vocab_size s"
    using assms(1) by (simp add: step_check_def list_all_iff)
  from mask_rows_ok[OF assms(3) rm(2), of 0 lp] len rows obtain rm' where
    mr: "mask_rows C 0 (tree_builders s) rm lp =
          (None, rm',
           map (\<lambda>i. if 0 \<le> i \<and> i < 0 + length (tree_builders s)
                     then mask_illegal (get_next_possible_ids C (tree_builders s ! (i - 0))) (lp ! i)
                     else lp ! i) [0..<length lp])" by auto
  have mr': "mask_rows C 0 (tree_builders s0) rm lp = (None, rm', ?masked)"
    using mr map2_mask_nth[OF len, of C] f(1) by simp
  have pre: "preprocess_log_probs C s0 lp
           = (Inr (map log_softmax_row ?masked), s0\<lparr>row_mask := Some rm'\<rparr>, ?masked)"
    using rm(1) mr' by (simp add: preprocess_log_probs_def)
  have t: "tensor_after C s lp sel = ?masked"
    using e chk pre by (simp add: tensor_after_def step_def split: prod.splits)
  show ?thesis by (rule t)
qed

text \<open>
  C10 (the caller's matrix is masked in place): for a call that passes the shape check,
  on a decoder with one tree builder for each row whose legal ids are tokens of the
  vocabulary, the caller's own matrix after \<^verbatim>\<open>step\<close> is the matrix it supplied
  with the entry of every illegal column of every row overwritten by negative
  infinity, the legal ones as they were; so the supplied scores are not preserved as
  soon as one illegal column held anything but negative infinity.
\<close>

theorem C10_masks_callers_tensor:
  assumes "step_check s lp" and "ready s"
    and "\<forall>tb\<in>set (tree_builders s). \<forall>i\<in>set (get_next_possible_ids C tb). i < vocab_size s"
  shows "tensor_after C s lp sel
           = map2 (\<lambda>tb row. mask_illegal (get_next_possible_ids C tb) row) (tree_builders s) lp \<and>
         (\<forall>i j. i < length lp \<and> j < vocab_size s \<longrightarrow>
            tensor_after C s lp sel ! i ! j
              = (if j \<in> set (get_next_possible_ids C (tree_builders s ! i)) then lp ! i ! j
                 else NegInf)) \<and>
         ((\<exists>i j. i < length lp \<and> j < vocab_size s \<and>
                 j \<notin> set (get_next_possible_ids C (tree_builders s ! i)) \<and>
                 lp ! i ! j \<noteq> NegInf) \<longrightarrow>
            tensor_after C s lp sel \<noteq> lp)"
proof -
  let ?masked = "map2 (\<lambda>tb row. mask_illegal (get_next_possible_ids C tb) row) (tree_builders s) lp"
  have t: "tensor_after C s lp sel = ?masked" by (rule tensor_after_masked[OF assms])
  have len: "length (tree_builders s) = length lp"
    using assms(1,2) by (simp add: ready_def step_check_def)
  have rows: "\<forall>row\<in>set lp. length row = vocab_size s"
    using assms(1) by (simp add: step_check_def list_all_iff)
  have nth: "?masked ! i ! j
              = (if j \<in> set (get_next_possible_ids C (tree_builders s ! i)) then lp ! i ! j
                 else NegInf)"
    if "i < length lp" "j < vocab_size s" for i j
  proof -
    have "length (lp ! i) = vocab_size s" using rows that(1) by simp
    then show ?thesis using that len by (simp add: mask_illegal_def)
  qed
  have diff: "?masked \<noteq> lp"
    if "i < length lp" "j < vocab_size s"
       "j \<notin> set (get_next_possible_ids C (tree_builders s ! i))" "lp ! i ! j \<noteq> NegInf" for i j
  proof
    assume "?masked = lp"
    then have "?masked ! i ! j = lp ! i ! j" by simp
    with nth[OF that(1,2)] that(3,4) show False by simp
  qed
  show ?thesis unfolding t using nth diff by blast
qed

text \<open>
  With token 2 as the only legal token, the scenario's row comes back from the first
  step with three entries overwritten.
\<close>

theorem C10_masks_callers_tensor_witness:
  "step_check (new_BeamSearch 4 2 ()) scenario_scores \<and>
   ready (new_BeamSearch 4 2 ()) \<and>
   tensor_after only_two (new_BeamSearch 4 2 ()) scenario_scores [2, 0, 1, 3]
     = [[NegInf, NegInf, Fin (- 1 / 20), NegInf]] \<and>
   tensor_after only_two (new_BeamSearch 4 2 ()) scenario_scores [2, 0, 1, 3] \<noteq> scenario_scores"
proof -
  have h1: "step_check (new_BeamSearch 4 2 ()) scenario_scores"
    by (simp add: step_check_def new_BeamSearch_def batch_size_def scenario_scores_def)
  have h2: "ready (new_BeamSearch 4 2 ())" by (rule ready_new)
  have h3: "\<forall>tb\<in>set (tree_builders (new_BeamSearch 4 2 ())).
              \<forall>i\<in>set (get_next_possible_ids only_two tb). i < vocab_size (new_BeamSearch 4 2 ())"
    by (simp add: new_BeamSearch_def only_two_def)
  from C10_masks_callers_tensor[OF h1 h2 h3, of "[2, 0, 1, 3]"]
  have "tensor_after only_two (new_BeamSearch 4 2 ()) scenario_scores [2, 0, 1, 3]
     = map2 (\<lambda>tb row. mask_illegal (get_next_possible_ids only_two tb) row)
         (tree_builders (new_BeamSearch 4 2 ())) scenario_scores" by blast
  then have "tensor_after only_two (new_BeamSearch 4 2 ()) scenario_scores [2, 0, 1, 3]
     = [[NegInf, NegInf, Fin (- 1 / 20), NegInf]]"
    by (simp add: new_BeamSearch_def only_two_def scenario_scores_def mask_illegal_def upt_rec)
  then show ?thesis using h1 h2 by (simp add: scenario_scores_def)
qed

text \<open>
  C1 fails on the code at a starved step. Vocabulary 4, beam size 2, one newline node (four
  candidates are requested), token 2 the only legal token of the row. The masking sets the
  columns 0, 1 and 3 to negative infinity and the renormalised candidate scores are
  \<open>[-inf, -inf, 0, -inf]\<close>; \<^verbatim>\<open>torch.topk\<close> must return all four positions, and
  the loop stops at NaN only, not at negative infinity. After the legal candidate it
  dispatches position 0: token 0, which is not in the legal set, is advanced and
  committed as the second row of the beam, with score negative infinity.
\<close>

theorem C1_illegal_token_dispatched:
  "get_next_possible_ids only_two () = [2] \<and>
   tensor_after only_two (new_BeamSearch 4 2 ()) scenario_scores [2, 0, 1, 3]
     = [[NegInf, NegInf, Fin (- 1 / 20), NegInf]] \<and>
   candidate_scores
       (map log_softmax_row
          (tensor_after only_two (new_BeamSearch 4 2 ()) scenario_scores [2, 0, 1, 3]))
       [Fin 0]
     = [NegInf, NegInf, Fin 0, NegInf] \<and>
   is_topk [NegInf, NegInf, Fin 0, NegInf]
     (num_candidates only_two (new_BeamSearch 4 2 ())) [2, 0, 1, 3] \<and>
   returned only_two (new_BeamSearch 4 2 ()) scenario_scores [2, 0, 1, 3] = Inr (Some [0, 0]) \<and>
   hypotheses (state_after only_two (new_BeamSearch 4 2 ()) scenario_scores [2, 0, 1, 3])
     = Some [[2], [0]] \<and>
   scores (state_after only_two (new_BeamSearch 4 2 ()) scenario_scores [2, 0, 1, 3])
     = Some [Fin 0, NegInf]"
  by (simp add: step_unfold only_two_def scenario_scores_def upt_rec is_topk_def)

text \<open>
  C6 fails on the code: \<^verbatim>\<open>_step\<close> calls \<^verbatim>\<open>torch.topk\<close> with
  \<^verbatim>\<open>sorted=False\<close>, so the positions come in no particular order. Vocabulary 4,
  beam size 1, one newline node (two candidates are requested), every token legal, the
  scores of the scenario. The positions \<open>[0, 2]\<close> are a top-2 of the candidate
  scores; dispatched in this order, token 0 fills the only beam slot and the loop
  stops, although the candidate for token 2 continues as well and scores strictly
  higher.
\<close>

theorem C6_unsorted_dispatch:
  "is_topk
     (candidate_scores (map log_softmax_row scenario_scores) [Fin 0])
     (num_candidates free_builder (new_BeamSearch 4 1 ())) [0, 2] \<and>
   returned free_builder (new_BeamSearch 4 1 ()) scenario_scores [0, 2] = Inr (Some [0]) \<and>
   hypotheses (state_after free_builder (new_BeamSearch 4 1 ()) scenario_scores [0, 2])
     = Some [[0]] \<and>
   snd (add_id free_builder () 2) = NOT_COMPLETE \<and>
   \<not> topk_ge (candidate_scores (map log_softmax_row scenario_scores) [Fin 0] ! 0)
            (candidate_scores (map log_softmax_row scenario_scores) [Fin 0] ! 2)"
  by (simp add: step_unfold free_builder_def scenario_scores_def upt_rec is_topk_def)

section \<open>Decoders between calls\<close>

text \<open>
  A fresh decoder is ready, and every \<^verbatim>\<open>step\<close> call that returns (a sort mask or
  \<^verbatim>\<open>None\<close>) leaves a ready decoder ready.
\<close>

lemma update_state_frame2:
  assumes "update_state s smp sm ns tbs = (e, s2)"
  shows "row_mask s2 = row_mask s" "is_initialized s2 = is_initialized s"
  using assms
  by (auto simp: update_state_def Let_def split: option.splits if_splits)

lemma step'_frame:
  "row_mask (snd (step' C s nl sel)) = row_mask s \<and>
   is_initialized (snd (step' C s nl sel)) = is_initialized s \<and>
   vocab_size (snd (step' C s nl sel)) = vocab_size s \<and>
   beam_size (snd (step' C s nl sel)) = beam_size s"
proof (cases "scores s")
  case None
  then show ?thesis by (simp add: step'_def)
next
  case (Some sc)
  show ?thesis
  proof (cases "length sc = length nl \<and> \<not> length (candidate_scores nl sc) < num_candidates C s")
    case False
    have "snd (step' C s nl sel) = s"
    proof (cases "length sc = length nl")
      case True
      with False Some show ?thesis by (simp add: step'_def Let_def)
    next
      case F: False
      with Some show ?thesis by (simp add: step'_def)
    qed
    then show ?thesis by simp
  next
    case True
    obtain err d where dr: "draft C (vocab_size s) (beam_size s) (tree_builders s) (hypotheses s)
           (map (\<lambda>i. (i, candidate_scores nl sc ! i)) sel)
           \<lparr>d_samples = [], d_tree_builders = [], d_sort_mask = [],
            d_sample_scores = [], d_terminated = terminated_hypotheses s\<rparr> = (err, d)"
      by (meson surj_pair)
    note eq = step'_draft[OF Some conjunct1[OF True] conjunct2[OF True] dr]
    obtain e2 s2 where u: "update_state (s\<lparr>terminated_hypotheses := d_terminated d\<rparr>) (d_samples d)
                    (d_sort_mask d) (d_sample_scores d) (d_tree_builders d) = (e2, s2)"
      by (meson surj_pair)
    show ?thesis
      unfolding eq using update_state_frame(2,3)[OF u] update_state_frame2[OF u] u
      by (cases err; cases e2) simp_all
  qed
qed

lemma mask_rows_length:
  assumes "mask_rows C k tbs rm lp = (e, rm', lp')"
  shows "length rm' = length rm"
  using assms
proof (induction tbs arbitrary: k rm lp)
  case Nil
  then show ?case by simp
next
  case (Cons tb tbs)
  show ?case
  proof (cases "make_row_mask (length rm) (get_next_possible_ids C tb)")
    case (Inl err)
    with Cons.prems show ?thesis by simp
  next
    case (Inr rm1)
    then have l1: "length rm1 = length rm"
      by (auto simp: make_row_mask_def split: if_splits)
    show ?thesis
    proof (cases "length lp \<le> k \<or> length (lp ! k) \<noteq> length rm1")
      case True
      with Cons.prems Inr l1 show ?thesis by (auto split: if_splits)
    next
      case False
      with Cons.prems Inr
      have "mask_rows C (Suc k) tbs rm1 (lp[k := mask_row rm1 (lp ! k)]) = (e, rm', lp')"
        by simp
      from Cons.IH[OF this] l1 show ?thesis by simp
    qed
  qed
qed

lemma ready_step:
  assumes "ready s" and "returned C s lp sel = Inr r"
  shows "ready (state_after C s lp sel)"
proof -
  let ?s' = "state_after C s lp sel"
  from step_returned_Inr[OF assms(2)] obtain s0 s1 nl where
    e: "ensure_initialized s lp = Inr s0" and chk: "step_check s0 lp" and
    p: "preprocess_log_probs C s0 lp = (Inr nl, s1, tensor_after C s lp sel)" and
    st: "step' C s1 nl sel = (Inr r, ?s')" by blast
  note fr = ensure_initialized_frame[OF e]
  have chk': "step_check s lp" using chk step_check_cong[OF fr(1,2)] by simp
  from ready_ensure_initialized[OF assms(1) chk'] e obtain rm where
    rm: "row_mask s0 = Some rm" "length rm = vocab_size s" by auto
  have i0: "is_initialized s0"
    using fr(9) ensure_initialized_first(3)[OF e] by (cases "is_initialized s") auto
  have s1: "s1 = s0\<lparr>row_mask := row_mask s1\<rparr>" by (rule preprocess_frame[OF p])
  obtain rm' where rm': "row_mask s1 = Some rm'" "length rm' = length rm"
    using p rm(1) mask_rows_length[of C 0 "tree_builders s0" rm lp]
    by (auto simp: preprocess_log_probs_def split: prod.splits option.splits)
  have f1: "tree_builders s1 = tree_builders s" "scores s1 = scores s0"
    "is_initialized s1" "vocab_size s1 = vocab_size s"
    using fr(2,4) i0 by (subst s1, simp)+
  have b1: "batch_size s1 = batch_size s" using f1(2) fr(1) by (simp add: batch_size_def)
  have f': "row_mask ?s' = Some rm'" "is_initialized ?s'" "vocab_size ?s' = vocab_size s"
    using step'_frame[of C s1 nl sel] st rm'(1) f1(3,4) by simp_all
  have len: "length (tree_builders ?s') = batch_size ?s'"
  proof -
    from step'_Inr[OF st] obtain sc d where
      dr: "draft C (vocab_size s1) (beam_size s1) (tree_builders s1) (hypotheses s1)
        (map (\<lambda>i. (i, candidate_scores nl sc ! i)) sel)
        \<lparr>d_samples = [], d_tree_builders = [], d_sort_mask = [],
         d_sample_scores = [], d_terminated = terminated_hypotheses s1\<rparr> = (None, d)"
      and ab: "if d_samples d = [] then r = None \<and> ?s' = s1\<lparr>terminated_hypotheses := d_terminated d\<rparr>
       else r = Some (d_sort_mask d) \<and> scores ?s' = Some (d_sample_scores d)
        \<and> beam_size ?s' = beam_size s1 \<and> vocab_size ?s' = vocab_size s1
        \<and> terminated_hypotheses ?s' = d_terminated d \<and> tree_builders ?s' = d_tree_builders d"
      by blast
    show ?thesis
    proof (cases "d_samples d = []")
      case True
      with ab have "?s' = s1\<lparr>terminated_hypotheses := d_terminated d\<rparr>" by simp
      then have "tree_builders ?s' = tree_builders s1" "scores ?s' = scores s1" by simp_all
      then show ?thesis using f1(1) b1 assms(1) by (simp add: ready_def batch_size_def)
    next
      case False
      with ab have x: "scores ?s' = Some (d_sample_scores d)"
        "tree_builders ?s' = d_tree_builders d" by simp_all
      from draft_lengths[OF dr] have "length (d_tree_builders d) = length (d_sample_scores d)"
        by simp
      then show ?thesis using x by (simp add: batch_size_def)
    qed
  qed
  show ?thesis using len f' rm'(2) rm(2) by (simp add: ready_def)
qed

section \<open>Candidate scores of illegal tokens\<close>

lemma nth_concat_uniform:
  assumes "\<forall>row\<in>set xss. length row = n" and "i < length xss" and "j < n"
  shows "concat xss ! (i * n + j) = xss ! i ! j"
  using assms
proof (induction xss arbitrary: i)
  case Nil
  then show ?case by simp
next
  case (Cons x xss)
  have lx: "length x = n" using Cons.prems(1) by simp
  show ?case
  proof (cases i)
    case 0
    then show ?thesis using lx Cons.prems(3) by (simp add: nth_append)
  next
    case (Suc i')
    have "concat xss ! (i' * n + j) = xss ! i' ! j"
      using Cons.IH[of i'] Cons.prems Suc by simp
    then show ?thesis using Suc lx by (simp add: nth_append)
  qed
qed

lemma fadd_NegInf: "fadd NegInf x = NegInf \<or> fadd NegInf x = NaN"
  by (cases x) simp_all

lemma log_softmax_row_NegInf:
  assumes "j < length row" and "row ! j = NegInf"
  shows "log_softmax_row row ! j = NegInf \<or> log_softmax_row row ! j = NaN"
  using assms by (simp add: log_softmax_row_def)

lemma length_log_softmax_row: "length (log_softmax_row row) = length row"
  by (simp add: log_softmax_row_def)

lemma candidate_scores_nth:
  assumes "\<forall>row\<in>set nl. length row = n" and "length sc = length nl"
    and "h < length nl" and "t < n"
  shows "candidate_scores nl sc ! (h * n + t) = fadd (nl ! h ! t) (sc ! h)"
proof -
  have rows: "\<forall>row\<in>set (add_scores nl sc). length row = n"
    using assms(1) by (auto simp: add_scores_def set_zip)
  have len: "h < length (add_scores nl sc)" using assms(2,3) by (simp add: add_scores_def)
  have "add_scores nl sc ! h ! t = fadd (nl ! h ! t) (sc ! h)"
    using assms by (simp add: add_scores_def)
  then show ?thesis
    using nth_concat_uniform[OF rows len assms(4)] by (simp add: candidate_scores_def flatten_def)
qed

text \<open>
  What the masking does achieve: in the scores handed to \<^verbatim>\<open>torch.topk\<close>, the
  candidate of a row and a token that is not legal for that row is negative infinity
  or NaN. The loop of \<^verbatim>\<open>_step\<close> stops at NaN; a candidate at negative infinity
  it dispatches like any other.
\<close>

lemma illegal_candidate_score:
  assumes "step_check s lp" and "ready s"
    and "\<forall>tb\<in>set (tree_builders s). \<forall>i\<in>set (get_next_possible_ids C tb). i < vocab_size s"
    and "h < batch_size s" and "t < vocab_size s"
    and "t \<notin> set (get_next_possible_ids C (tree_builders s ! h))"
    and "length sc = batch_size s"
  shows "candidate_scores (map log_softmax_row (tensor_after C s lp sel)) sc
           ! (h * vocab_size s + t) = NegInf \<or>
         candidate_scores (map log_softmax_row (tensor_after C s lp sel)) sc
           ! (h * vocab_size s + t) = NaN"
proof -
  let ?masked = "map2 (\<lambda>tb row. mask_illegal (get_next_possible_ids C tb) row) (tree_builders s) lp"
  let ?nl = "map log_softmax_row ?masked"
  have t: "tensor_after C s lp sel = ?masked" by (rule tensor_after_masked[OF assms(1-3)])
  have len: "length (tree_builders s) = length lp" "length lp = batch_size s"
    using assms(1,2) by (simp_all add: ready_def step_check_def)
  have rows: "\<forall>row\<in>set lp. length row = vocab_size s"
    using assms(1) by (simp add: step_check_def list_all_iff)
  have h: "h < length lp" using assms(4) len by simp
  have lh: "length (lp ! h) = vocab_size s" using rows h by simp
  have m: "?masked ! h = mask_illegal (get_next_possible_ids C (tree_builders s ! h)) (lp ! h)"
    using h len by simp
  have mt: "?masked ! h ! t = NegInf" "t < length (?masked ! h)"
    unfolding m using assms(5,6) lh by (simp_all add: mask_illegal_def)
  have nrows: "\<forall>row\<in>set ?nl. length row = vocab_size s"
    using rows by (auto simp: set_zip length_log_softmax_row length_mask_illegal)
  have nlen: "length sc = length ?nl" "h < length ?nl" using assms(7) len h by simp_all
  have "?nl ! h ! t = log_softmax_row (?masked ! h) ! t" using h len by simp
  with log_softmax_row_NegInf[OF mt(2,1)]
  have n: "?nl ! h ! t = NegInf \<or> ?nl ! h ! t = NaN" by simp
  have "candidate_scores ?nl sc ! (h * vocab_size s + t) = fadd (?nl ! h ! t) (sc ! h)"
    by (rule candidate_scores_nth[OF nrows nlen assms(5)])
  then show ?thesis unfolding t using n fadd_NegInf[of "sc ! h"] by auto
qed

end
